theory Spec2Isabelle
  imports Complex_Main "HOL-Library.AList" "HOL-Library.Char_ord" "HOL-Library.List_Lexorder"
begin

section \<open>Strings, paths and directory entries\<close>

text \<open>
  JavaScript strings are modelled as \<^typ>\<open>string\<close>, one \<^typ>\<open>char\<close> per code unit, so
  the model covers the texts whose code units are below 256.
  \<open>js_split s c\<close> is \<open>s.split(c)\<close> for a one-character separator: the pieces between
  the separators, so a text that ends with the separator has a last, empty piece and
  the empty text has the single piece \<open>''''\<close>.
\<close>

fun js_split :: "string \<Rightarrow> char \<Rightarrow> string list" where
  "js_split [] c = [[]]"
| "js_split (x # xs) c =
     (if x = c then [] # js_split xs c
      else (case js_split xs c of
              [] \<Rightarrow> [[x]]
            | l # ls \<Rightarrow> (x # l) # ls))"

text \<open>
  \<open>extname\<close> and \<open>basename\<close> are imported from Node's \<open>path\<close> module (line 4 of
  \<open>src/index.ts\<close>). They are modelled in their POSIX form: both look at the last
  component of the path, trailing separators ignored. \<open>extname\<close> is the text from the
  last dot of that component to its end, and is empty when the component has no dot,
  when the last dot is its first character, and for the component \<open>..\<close>.
  \<open>basename p ext\<close> is the component with \<open>ext\<close> removed when it ends the component
  without being the whole of it.
\<close>

definition last_segment :: "string \<Rightarrow> string" where
  "last_segment p =
     rev (takeWhile (\<lambda>c. c \<noteq> CHR ''/'') (dropWhile (\<lambda>c. c = CHR ''/'') (rev p)))"

definition extname :: "string \<Rightarrow> string" where
  "extname p =
     (let b = last_segment p;
          e = rev (takeWhile (\<lambda>c. c \<noteq> CHR ''.'') (rev b));
          stem = take (length b - Suc (length e)) b
      in if stem = [] \<or> b = ''..'' \<or> CHR ''.'' \<notin> set b then [] else CHR ''.'' # e)"

definition basename :: "string \<Rightarrow> string \<Rightarrow> string" where
  "basename p ext =
     (let b = last_segment p
      in if ext \<noteq> [] \<and> length ext \<le> length p then
           (if ext = p then []
            else if length ext < length b \<and> drop (length b - length ext) b = ext
                 then take (length b - length ext) b
            else b)
         else b)"

text \<open>A \<open>Dirent\<close> of \<open>readDir(..., { withFileTypes: true })\<close>: a name and a file type.\<close>

datatype file_type = File | Directory | Other

record dirent =
  d_name :: string
  d_type :: file_type

definition isFile :: "dirent \<Rightarrow> bool" where
  "isFile d = (d_type d = File)"

definition isDirectory :: "dirent \<Rightarrow> bool" where
  "isDirectory d = (d_type d = Directory)"

definition supportedExtensions :: "string list" where
  "supportedExtensions = [''.js'', ''.ts'']"

text \<open>
  The file system as the program reads it. Paths under the source directory are
  relative to \<open>srcDir\<close> with \<open>/\<close> between the components (\<open>''''\<close> is \<open>srcDir\<close> itself);
  the names under the hackmud directory are those of its direct entries. Every listing
  and read of the model succeeds.
\<close>

record filesystem =
  src_ls :: "string \<Rightarrow> dirent list"
  src_cat :: "string \<Rightarrow> string"
  hm_ls :: "dirent list"
  hm_cat :: "string \<Rightarrow> string"
  hm_mtime :: "string \<Rightarrow> int"

section \<open>syncMacros\<close>

text \<open>
  \<open>macros\<close> is \<open>Map<string, { macro: string, date: Date }>\<close>: an association list in
  insertion order with one entry per key. A \<open>Date\<close> is its time value, an integer
  number of milliseconds.
\<close>

record macro_entry =
  entry_macro :: string
  entry_date :: int

type_synonym macros = "(string \<times> macro_entry) list"

text \<open>
  The loop of lines 290 to 296 over one macro file, from index \<open>i\<close>. Its guard is
  \<open>i < lines.length / 2 - 1\<close>, a comparison of JavaScript numbers; under the guard both
  \<open>lines[i * 2]\<close> and \<open>lines[i * 2 + 1]\<close> are in range.
\<close>

definition loop_guard :: "nat \<Rightarrow> nat \<Rightarrow> bool" where
  "loop_guard i n = (real i < real n / 2 - 1)"

function scan_lines :: "int \<Rightarrow> string list \<Rightarrow> nat \<Rightarrow> macros \<Rightarrow> macros" where
  "scan_lines date lines i macros =
     (if loop_guard i (length lines) then
        (let macroName = lines ! (i * 2);
             curMacro = map_of macros macroName
         in scan_lines date lines (i + 1)
              (if (case curMacro of None \<Rightarrow> True | Some cur \<Rightarrow> date > entry_date cur)
               then AList.update macroName
                      \<lparr>entry_macro = lines ! (i * 2 + 1), entry_date = date\<rparr> macros
               else macros))
      else macros)"
  by pat_completeness auto
termination
  by (relation "measure (\<lambda>(date, lines, i, macros). length lines - 2 * i)")
     (auto simp: loop_guard_def field_simps)

text \<open>
  The loop of lines 283 to 306 over the entries of the hackmud directory: a \<open>.macros\<close>
  file is split at line feeds and scanned with its modification time, a \<open>.key\<close> file
  names a user.
\<close>

fun scan_files :: "filesystem \<Rightarrow> dirent list \<Rightarrow> macros \<times> string list \<Rightarrow> macros \<times> string list" where
  "scan_files fs [] st = st"
| "scan_files fs (file # files) (macros, users) =
     scan_files fs files
       (if isFile file then
          (if extname (d_name file) = ''.macros'' then
             (scan_lines (hm_mtime fs (d_name file))
                (js_split (hm_cat fs (d_name file)) (CHR 0x0A)) 0 macros, users)
           else if extname (d_name file) = ''.key'' then
             (macros, users @ [basename (d_name file) ''.key''])
           else (macros, users))
        else (macros, users))"

text \<open>
  \<open>toLowerCase\<close> on one code unit below 256: the capital letters are \<open>A\<close> to \<open>Z\<close>
  (65 to 90) and the accented capitals 192 to 222 without the multiplication sign 215;
  the lower case of each is 32 above it, and every other character is its own.
\<close>

definition toLowerCase :: "char \<Rightarrow> char" where
  "toLowerCase c =
     (let n = of_char c :: nat
      in if (65 \<le> n \<and> n \<le> 90) \<or> (192 \<le> n \<and> n \<le> 222 \<and> n \<noteq> 215)
         then char_of (n + 32) else c)"

datatype sync_error = TypeError

text \<open>
  The loop of lines 311 to 315 over the sorted entries. \<open>macro[0]\<close> of an empty body
  is \<open>undefined\<close>, and calling \<open>toLowerCase\<close> on it throws.
\<close>

fun merge_macros :: "macros \<Rightarrow> string \<times> nat \<Rightarrow> sync_error + string \<times> nat" where
  "merge_macros [] acc = Inr acc"
| "merge_macros ((name, e) # rest) (macroFile, macrosSynced) =
     (case entry_macro e of
        [] \<Rightarrow> Inl TypeError
      | c # cs \<Rightarrow>
          if c = toLowerCase c
          then merge_macros rest
                 (macroFile @ name @ [CHR 0x0A] @ entry_macro e @ [CHR 0x0A], Suc macrosSynced)
          else merge_macros rest (macroFile, macrosSynced))"

record sync_result =
  macrosSynced :: nat
  usersSynced :: nat
  macro_writes :: "(string \<times> string) list"

text \<open>
  \<open>syncMacros\<close>: the value it resolves to, together with the files it writes (name under
  the hackmud directory, content). The sort of line 311 orders the entries by name,
  strings compared code unit by code unit.
\<close>

definition syncMacros :: "filesystem \<Rightarrow> sync_error + sync_result" where
  "syncMacros fs =
     (case scan_files fs (hm_ls fs) ([], []) of
        (macros, users) \<Rightarrow>
          (case merge_macros (sort_key fst macros) ([], 0) of
             Inl e \<Rightarrow> Inl e
           | Inr (macroFile, n) \<Rightarrow>
               Inr \<lparr>macrosSynced = n, usersSynced = length users,
                    macro_writes = map (\<lambda>user. (user @ ''.macros'', macroFile)) users\<rparr>))"

section \<open>push\<close>

text \<open>
  \<open>processScript\<close> (lines 350 to 401) calls the TypeScript compiler, terser and prettier,
  which are not part of the repository; the model takes it as a parameter: a function
  from the source text to the text it resolves to or to the reason it rejects with.
  The \<open>error\<close> field of an \<open>Info\<close> is \<open>null\<close>, the rejection reason, or the
  \<open>Error("processed script was empty")\<close> of lines 71, 122, 213 and 250. A reason can
  be any value; \<open>Falsy\<close> stands for one that \<open>!error\<close> takes for no error
  (\<open>undefined\<close>, \<open>0\<close>, the empty string).
\<close>

datatype js_error = Null | Falsy | Reason string | Empty_error

fun truthy :: "js_error \<Rightarrow> bool" where
  "truthy Null = False"
| "truthy Falsy = False"
| "truthy (Reason r) = True"
| "truthy Empty_error = True"

datatype transform_result = Resolved string | Rejected js_error

type_synonym transformer = "string \<Rightarrow> transform_result"

text \<open>
  \<open>let error = null; const minCode = await processScript(code).catch(reason => { error =
  reason; return "" })\<close>: the pair \<open>(error, minCode)\<close> after the \<open>await\<close>.
\<close>

definition catch_processScript :: "transformer \<Rightarrow> string \<Rightarrow> js_error \<times> string" where
  "catch_processScript processScript code =
     (case processScript code of
        Resolved minCode \<Rightarrow> (Null, minCode)
      | Rejected reason \<Rightarrow> (reason, []))"

text \<open>\<open>script.replace(/[ \n\r]/g, "").length\<close> (lines 433 to 435).\<close>

definition hackmudLength :: "string \<Rightarrow> nat" where
  "hackmudLength script =
     length (filter (\<lambda>c. c \<notin> set [CHR '' '', CHR 0x0A, CHR 0x0D]) script)"

record info =
  info_file :: string
  info_users :: "string list"
  info_minLength :: nat
  info_error :: js_error

text \<open>
  A call \<open>writeFilePersist(resolvePath(hackmudDir, user, "scripts", `${name}.js`), minCode)\<close>
  is recorded as the components given to \<open>resolvePath\<close> and the data. What the program
  does with one source file is its \<open>Info\<close> and the writes it issues for it.
\<close>

type_synonym file_write = "string list \<times> string"

type_synonym outcome = "info \<times> file_write list"

definition deploy_path :: "string \<Rightarrow> string \<Rightarrow> string \<Rightarrow> string list" where
  "deploy_path hackmudDir user name = [hackmudDir, user, ''scripts'', name @ ''.js'']"

text \<open>\<open>!list.length || list.includes(x)\<close>: the test of a user or script filter.\<close>

definition passes :: "string list \<Rightarrow> string \<Rightarrow> bool" where
  "passes list x = (list = [] \<or> x \<in> set list)"

text \<open>
  \<open>skips\<close> is \<open>Map<string, string[]>\<close>. Lines 47 to 52 (and 173 to 178) add a user
  to the entry of a name; \<open>skips.get(name) || []\<close> reads an entry.
\<close>

type_synonym skips = "string \<rightharpoonup> string list"

definition skips_add :: "skips \<Rightarrow> string \<Rightarrow> string \<Rightarrow> skips" where
  "skips_add skips name user =
     (case skips name of
        Some skip \<Rightarrow> skips(name \<mapsto> skip @ [user])
      | None \<Rightarrow> skips(name \<mapsto> [user]))"

definition skips_get :: "skips \<Rightarrow> string \<Rightarrow> string list" where
  "skips_get skips name = (case skips name of Some skip \<Rightarrow> skip | None \<Rightarrow> [])"

text \<open>The users of lines 83 to 85 (and 203 to 205): one for each \<open>.key\<close> file.\<close>

definition key_users :: "filesystem \<Rightarrow> string list" where
  "key_users fs =
     map (\<lambda>a. basename (d_name a) ''.key'')
       (filter (\<lambda>a. isFile a \<and> extname (d_name a) = ''.key'') (hm_ls fs))"

text \<open>Lines 54 to 75: one script of a user's folder, once its text has been read.\<close>

definition push_private_file ::
  "transformer \<Rightarrow> string \<Rightarrow> filesystem \<Rightarrow> string \<Rightarrow> string \<Rightarrow> outcome" where
  "push_private_file processScript hackmudDir fs user fname =
     (let name = basename fname (extname fname);
          code = src_cat fs (user @ ''/'' @ fname);
          (error, minCode) = catch_processScript processScript code;
          info = \<lparr>info_file = user @ ''/'' @ fname, info_users = [user],
                  info_minLength = 0, info_error = error\<rparr>
      in if \<not> truthy error then
           (if minCode \<noteq> [] then
              (info\<lparr>info_minLength := hackmudLength minCode\<rparr>,
               [(deploy_path hackmudDir user name, minCode)])
            else (info\<lparr>info_error := Empty_error\<rparr>, []))
         else (info, []))"

text \<open>
  Lines 42 to 77: the entries of one user's folder. Each script that passes the test
  of line 46 is entered in \<open>skips\<close> at once, and then processed.
\<close>

fun push_user_files ::
  "transformer \<Rightarrow> string \<Rightarrow> filesystem \<Rightarrow> string list \<Rightarrow> string \<Rightarrow> dirent list \<Rightarrow>
     skips \<times> outcome list \<Rightarrow> skips \<times> outcome list" where
  "push_user_files processScript hackmudDir fs scripts user [] st = st"
| "push_user_files processScript hackmudDir fs scripts user (file # files) (skips, outcomes) =
     (let extension = extname (d_name file);
          name = basename (d_name file) extension
      in push_user_files processScript hackmudDir fs scripts user files
           (if extension \<in> set supportedExtensions \<and> isFile file \<and> passes scripts name
            then (skips_add skips name user,
                  outcomes @ [push_private_file processScript hackmudDir fs user (d_name file)])
            else (skips, outcomes)))"

text \<open>Lines 37 to 80: the entries of the source directory that are folders of users.\<close>

fun push_user_dirs ::
  "transformer \<Rightarrow> string \<Rightarrow> filesystem \<Rightarrow> string list \<Rightarrow> string list \<Rightarrow> dirent list \<Rightarrow>
     skips \<times> outcome list \<Rightarrow> skips \<times> outcome list" where
  "push_user_dirs processScript hackmudDir fs users scripts [] st = st"
| "push_user_dirs processScript hackmudDir fs users scripts (dir # files) st =
     (let user = d_name dir
      in push_user_dirs processScript hackmudDir fs users scripts files
           (if isDirectory dir \<and> passes users user
            then push_user_files processScript hackmudDir fs scripts user (src_ls fs user) st
            else st))"

text \<open>Lines 98 to 127: one script of the source directory itself.\<close>

definition push_global_file ::
  "transformer \<Rightarrow> string \<Rightarrow> filesystem \<Rightarrow> string list \<Rightarrow> skips \<Rightarrow> string \<Rightarrow> outcome" where
  "push_global_file processScript hackmudDir fs users skips fname =
     (let name = basename fname (extname fname);
          code = src_cat fs fname;
          (error, minCode) = catch_processScript processScript code;
          info = \<lparr>info_file = fname, info_users = [], info_minLength = 0, info_error = error\<rparr>
      in if \<not> truthy error then
           (if minCode \<noteq> [] then
              (let skip = skips_get skips name;
                   targets = filter (\<lambda>user. user \<notin> set skip) users
               in (info\<lparr>info_minLength := hackmudLength minCode, info_users := targets\<rparr>,
                   map (\<lambda>user. (deploy_path hackmudDir user name, minCode)) targets))
            else (info\<lparr>info_error := Empty_error\<rparr>, []))
         else (info, []))"

text \<open>Lines 90 to 131: the entries of the source directory that are scripts.\<close>

fun push_global_files ::
  "transformer \<Rightarrow> string \<Rightarrow> filesystem \<Rightarrow> string list \<Rightarrow> string list \<Rightarrow> skips \<Rightarrow>
     dirent list \<Rightarrow> outcome list" where
  "push_global_files processScript hackmudDir fs users scripts skips [] = []"
| "push_global_files processScript hackmudDir fs users scripts skips (file # files) =
     (if isFile file \<and> extname (d_name file) \<in> set supportedExtensions
         \<and> passes scripts (basename (d_name file) (extname (d_name file)))
      then [push_global_file processScript hackmudDir fs users skips (d_name file)]
      else [])
     @ push_global_files processScript hackmudDir fs users scripts skips files"

text \<open>
  \<open>push\<close>: what it has done for every source file once every operation it started has
  settled, the scripts of the users' folders first. The program runs these
  operations concurrently, so the order of the list is one of the possible ones.
\<close>

definition effective_users :: "filesystem \<Rightarrow> string list \<Rightarrow> string list" where
  "effective_users fs users = (if users = [] then key_users fs else users)"

definition push ::
  "transformer \<Rightarrow> string \<Rightarrow> filesystem \<Rightarrow> string list \<Rightarrow> string list \<Rightarrow> outcome list" where
  "push processScript hackmudDir fs users scripts =
     (let files = src_ls fs [];
          (skips, private) =
             push_user_dirs processScript hackmudDir fs users scripts files (Map.empty, [])
      in private @
         push_global_files processScript hackmudDir fs (effective_users fs users) scripts skips files)"

section \<open>watch\<close>

text \<open>
  Lines 164 to 184: \<open>skips\<close> as the handler of a change of a script of the source
  directory builds it, from every folder and with no filter.
\<close>

fun watch_skip_files :: "string \<Rightarrow> dirent list \<Rightarrow> skips \<Rightarrow> skips" where
  "watch_skip_files dir_name [] skips = skips"
| "watch_skip_files dir_name (file # files) skips =
     watch_skip_files dir_name files
       (if isFile file then
          (let ext = extname (d_name file)
           in if ext \<in> set supportedExtensions
              then skips_add skips (basename (d_name file) ext) dir_name
              else skips)
        else skips)"

fun watch_skip_dirs :: "filesystem \<Rightarrow> dirent list \<Rightarrow> skips \<Rightarrow> skips" where
  "watch_skip_dirs fs [] skips = skips"
| "watch_skip_dirs fs (dir # dirs) skips =
     watch_skip_dirs fs dirs
       (if isDirectory dir
        then watch_skip_files (d_name dir) (src_ls fs (d_name dir)) skips
        else skips)"

text \<open>
  The handler of a \<open>change\<close> event (lines 148 to 263). \<open>users\<close> is a variable of
  \<open>watch\<close> that line 203 assigns, so the handler takes its value and returns the new
  one, with what it has done for the file (nothing when the event is filtered out).
  The \<open>Info\<close> is the one given to \<open>onPush\<close>.
\<close>

definition watch_root_change ::
  "transformer \<Rightarrow> string \<Rightarrow> filesystem \<Rightarrow> string list \<Rightarrow> string list \<Rightarrow> string \<Rightarrow> string \<Rightarrow>
     string list \<times> outcome option" where
  "watch_root_change processScript hackmudDir fs users scripts name file =
     (if passes scripts name then
        (let code = src_cat fs file;
             skips = watch_skip_dirs fs (src_ls fs []) Map.empty;
             (error, minCode) = catch_processScript processScript code;
             info = \<lparr>info_file = file, info_users = [], info_minLength = 0, info_error = error\<rparr>
         in if \<not> truthy error then
              (if minCode \<noteq> [] then
                 (let skip = skips_get skips name;
                      users' = (if users = [] then key_users fs else users);
                      targets = filter (\<lambda>user. user \<notin> set skip) users'
                  in (users',
                      Some (info\<lparr>info_minLength := hackmudLength minCode, info_users := targets\<rparr>,
                            map (\<lambda>user. (deploy_path hackmudDir user name, minCode)) targets)))
               else (users, Some (info\<lparr>info_error := Empty_error\<rparr>, [])))
            else (users, Some (info, [])))
      else (users, None))"

text \<open>
  Lines 225 to 260. The body of the \<open>for\<close> of line 246 is line 247 alone, so line 248
  runs once, after the loop, with the \<open>user\<close> of line 226.
\<close>

definition watch_user_change ::
  "transformer \<Rightarrow> string \<Rightarrow> filesystem \<Rightarrow> string list \<Rightarrow> string list \<Rightarrow> string \<Rightarrow> string \<Rightarrow>
     string \<Rightarrow> string list \<times> outcome option" where
  "watch_user_change processScript hackmudDir fs users scripts name path user =
     (if passes users user \<and> passes scripts name then
        (let code = src_cat fs path;
             (error, minCode) = catch_processScript processScript code;
             info = \<lparr>info_file = path, info_users = [user], info_minLength = 0,
                     info_error = error\<rparr>
         in if \<not> truthy error then
              (if minCode \<noteq> [] then
                 (users,
                  Some (info\<lparr>info_minLength := hackmudLength minCode,
                             info_users := info_users info @ users\<rparr>,
                        [(deploy_path hackmudDir user name, minCode)]))
               else (users, Some (info\<lparr>info_error := Empty_error\<rparr>, [])))
            else (users, Some (info, [])))
      else (users, None))"

definition watch_change ::
  "transformer \<Rightarrow> string \<Rightarrow> filesystem \<Rightarrow> string list \<Rightarrow> string list \<Rightarrow> string \<Rightarrow>
     string list \<times> outcome option" where
  "watch_change processScript hackmudDir fs users scripts path =
     (let extension = extname path
      in if extension \<in> set supportedExtensions then
           (let name = basename path extension;
                parts = js_split path (CHR ''/'')
            in case parts of
                 [file] \<Rightarrow> watch_root_change processScript hackmudDir fs users scripts name path
               | [user, rest] \<Rightarrow>
                   watch_user_change processScript hackmudDir fs users scripts name path user
               | _ \<Rightarrow> (users, None))
         else (users, None))"

section \<open>When the operations of push settle\<close>

text \<open>
  \<open>push\<close> starts its reads, transformations and writes without waiting for each
  other; what orders them is which promise a callback hangs on. Time is counted in
  steps: an operation started at time \<open>t\<close> settles at \<open>t\<close> plus its latency, and a
  callback runs at the time the promise it waits for settles.
\<close>

datatype operation =
    ReadDir_src string
  | ReadDir_hackmud
  | ReadFile_src string
  | ProcessScript string
  | WriteFile "string list"

type_synonym latency = "operation \<Rightarrow> nat"

text \<open>
  Line 33 awaits the listing of the source directory. Each folder's listing starts
  then, and its \<open>then\<close> callback (lines 41 to 78) is what \<open>promises\<close> holds: it starts
  the reads of line 54 and returns. Lines 82 to 85 await the listing of the hackmud
  directory when no user is given. The callback of line 87 runs when all of this has
  settled.
\<close>

definition push_dir_times :: "latency \<Rightarrow> filesystem \<Rightarrow> string list \<Rightarrow> (string \<times> nat) list" where
  "push_dir_times lat fs users =
     map (\<lambda>dir. (d_name dir, lat (ReadDir_src []) + lat (ReadDir_src (d_name dir))))
       (filter (\<lambda>dir. isDirectory dir \<and> passes users (d_name dir)) (src_ls fs []))"

definition push_join_time :: "latency \<Rightarrow> filesystem \<Rightarrow> string list \<Rightarrow> nat" where
  "push_join_time lat fs users =
     fold max (map snd (push_dir_times lat fs users))
       (if users = [] then lat (ReadDir_src []) + lat ReadDir_hackmud else lat (ReadDir_src []))"

text \<open>
  Lines 54 to 75 for the scripts of the users' folders: the read starts when the
  folder's listing settles, the transformation when the read settles, the write of
  line 69 when the transformation settles. The times are those at which the writes
  settle.
\<close>

definition push_private_write_times ::
  "latency \<Rightarrow> transformer \<Rightarrow> string \<Rightarrow> filesystem \<Rightarrow> string list \<Rightarrow> string list \<Rightarrow> nat list" where
  "push_private_write_times lat processScript hackmudDir fs users scripts =
     concat (map (\<lambda>(user, t_dir).
        concat (map (\<lambda>file.
           (let path = user @ ''/'' @ d_name file;
                t_min = t_dir + lat (ReadFile_src path) + lat (ProcessScript (src_cat fs path))
            in map (\<lambda>w. t_min + lat (WriteFile (fst w)))
                 (snd (push_private_file processScript hackmudDir fs user (d_name file)))))
          (filter (\<lambda>file. extname (d_name file) \<in> set supportedExtensions \<and> isFile file
                     \<and> passes scripts (basename (d_name file) (extname (d_name file))))
             (src_ls fs user))))
       (push_dir_times lat fs users))"

text \<open>
  Lines 98 to 127 for the scripts of the source directory: the promise that line 98
  adds to the \<open>promises\<close> of line 88 settles when the callback returns, which is when
  the transformation has settled and the writes of line 119 have been started; these
  writes are collected in the \<open>promises\<close> of line 114, which nothing waits for. Each
  script gives the time its promise settles and the times its writes settle.
\<close>

definition push_global_times ::
  "latency \<Rightarrow> transformer \<Rightarrow> string \<Rightarrow> filesystem \<Rightarrow> string list \<Rightarrow> string list \<Rightarrow>
     (nat \<times> nat list) list" where
  "push_global_times lat processScript hackmudDir fs users scripts =
     (let files = src_ls fs [];
          skips = fst (push_user_dirs processScript hackmudDir fs users scripts files (Map.empty, []))
      in map (\<lambda>file.
           (let t_min = push_join_time lat fs users + lat (ReadFile_src (d_name file))
                          + lat (ProcessScript (src_cat fs (d_name file)))
            in (t_min,
                map (\<lambda>w. t_min + lat (WriteFile (fst w)))
                  (snd (push_global_file processScript hackmudDir fs (effective_users fs users)
                          skips (d_name file))))))
         (filter (\<lambda>file. isFile file \<and> extname (d_name file) \<in> set supportedExtensions
                    \<and> passes scripts (basename (d_name file) (extname (d_name file))))
            files))"

text \<open>Line 133: \<open>resolve(infoAll)\<close> is called when the promises of line 88 have settled.\<close>

definition push_resolve_time ::
  "latency \<Rightarrow> transformer \<Rightarrow> string \<Rightarrow> filesystem \<Rightarrow> string list \<Rightarrow> string list \<Rightarrow> nat" where
  "push_resolve_time lat processScript hackmudDir fs users scripts =
     fold max (map fst (push_global_times lat processScript hackmudDir fs users scripts))
       (push_join_time lat fs users)"

definition push_write_times ::
  "latency \<Rightarrow> transformer \<Rightarrow> string \<Rightarrow> filesystem \<Rightarrow> string list \<Rightarrow> string list \<Rightarrow> nat list" where
  "push_write_times lat processScript hackmudDir fs users scripts =
     push_private_write_times lat processScript hackmudDir fs users scripts
     @ concat (map snd (push_global_times lat processScript hackmudDir fs users scripts))"

section \<open>Notions used in the properties\<close>

text \<open>
  The logical name of a script is its file name without the extension. An entry of a
  directory is a script to process when it is a file with a supported extension whose
  logical name passes the script filter: the test of line 46, and of lines 91 to 97.
\<close>

definition logical_name :: "string \<Rightarrow> string" where
  "logical_name fname = basename fname (extname fname)"

definition is_script :: "string list \<Rightarrow> dirent \<Rightarrow> bool" where
  "is_script scripts file =
     (isFile file \<and> extname (d_name file) \<in> set supportedExtensions
      \<and> passes scripts (logical_name (d_name file)))"

text \<open>
  A user holds a private override for the name \<open>n\<close> when the source directory has a
  folder of the user's name with a script of logical name \<open>n\<close> in it.
\<close>

definition holds_override :: "filesystem \<Rightarrow> string \<Rightarrow> string \<Rightarrow> bool" where
  "holds_override fs n user =
     (\<exists>dir \<in> set (src_ls fs []). isDirectory dir \<and> d_name dir = user
        \<and> (\<exists>file \<in> set (src_ls fs user). isFile file
              \<and> extname (d_name file) \<in> set supportedExtensions
              \<and> logical_name (d_name file) = n))"

text \<open>The transformer fails on a text when it rejects it or resolves to the empty text.\<close>

definition transform_fails :: "transformer \<Rightarrow> string \<Rightarrow> bool" where
  "transform_fails processScript code =
     (case processScript code of Rejected reason \<Rightarrow> True | Resolved minCode \<Rightarrow> minCode = [])"

text \<open>
  The candidate records of a macro file in the order the loop of lines 290 to 296
  reads them, and those of all macro files in the order of the directory listing.
  \<open>merge_record\<close> is one pass of lines 292 to 295 for one candidate.
\<close>

definition file_candidates :: "int \<Rightarrow> string list \<Rightarrow> (string \<times> macro_entry) list" where
  "file_candidates date lines =
     map (\<lambda>i. (lines ! (i * 2), \<lparr>entry_macro = lines ! (i * 2 + 1), entry_date = date\<rparr>))
       [0..<(length lines - 1) div 2]"

definition all_candidates :: "filesystem \<Rightarrow> dirent list \<Rightarrow> (string \<times> macro_entry) list" where
  "all_candidates fs files =
     concat (map (\<lambda>file.
        if isFile file \<and> extname (d_name file) = ''.macros''
        then file_candidates (hm_mtime fs (d_name file))
               (js_split (hm_cat fs (d_name file)) (CHR 0x0A))
        else []) files)"

definition merge_record :: "string \<times> macro_entry \<Rightarrow> macros \<Rightarrow> macros" where
  "merge_record c macros =
     (if (case map_of macros (fst c) of None \<Rightarrow> True
          | Some cur \<Rightarrow> entry_date (snd c) > entry_date cur)
      then AList.update (fst c) (snd c) macros else macros)"

text \<open>
  \<open>best_at cs k e j\<close>: the candidate at index \<open>j\<close> is the record \<open>e\<close> for the name
  \<open>k\<close>, no candidate for \<open>k\<close> is newer, and none as new stands before it.
\<close>

definition best_at :: "(string \<times> macro_entry) list \<Rightarrow> string \<Rightarrow> macro_entry \<Rightarrow> nat \<Rightarrow> bool" where
  "best_at cs k e j \<longleftrightarrow>
     j < length cs \<and> cs ! j = (k, e)
     \<and> (\<forall>j' < length cs. fst (cs ! j') = k \<longrightarrow>
           entry_date (snd (cs ! j')) \<le> entry_date e
           \<and> (entry_date (snd (cs ! j')) = entry_date e \<longrightarrow> j \<le> j'))"

text \<open>
  The test of line 312 on the body of a record, and the block \<open>`${name}\n${macro}\n`\<close>
  that line 313 appends for it.
\<close>

definition starts_lower :: "string \<Rightarrow> bool" where
  "starts_lower macro = (case macro of [] \<Rightarrow> False | c # cs \<Rightarrow> c = toLowerCase c)"

definition render_macro :: "string \<times> macro_entry \<Rightarrow> string" where
  "render_macro r = fst r @ [CHR 0x0A] @ entry_macro (snd r) @ [CHR 0x0A]"

text \<open>
  A text made of lines that each end with a line feed, and the (name, body) pairs of a
  list of lines: the first and second line, the third and fourth, and so on.
\<close>

fun line_pairs :: "string list \<Rightarrow> (string \<times> string) list" where
  "line_pairs (name # body # rest) = (name, body) # line_pairs rest"
| "line_pairs rest = []"

definition terminated_lines :: "string list \<Rightarrow> string" where
  "terminated_lines ls = concat (map (\<lambda>l. l @ [CHR 0x0A]) ls)"

section \<open>Example inputs\<close>

text \<open>
  The end-to-end scenario of the specification: the source directory holds \<open>foo.ts\<close>
  and the folder \<open>alice\<close> with its own \<open>foo.ts\<close>; the hackmud directory holds the key
  files of \<open>alice\<close> and \<open>bob\<close>.
\<close>

definition fs_alice_bob :: filesystem where
  "fs_alice_bob =
     \<lparr>src_ls = (\<lambda>p. if p = [] then [\<lparr>d_name = ''foo.ts'', d_type = File\<rparr>,
                                    \<lparr>d_name = ''alice'', d_type = Directory\<rparr>]
                     else if p = ''alice'' then [\<lparr>d_name = ''foo.ts'', d_type = File\<rparr>]
                     else []),
      src_cat = (\<lambda>p. if p = ''foo.ts'' then ''G'' else if p = ''alice/foo.ts'' then ''P'' else []),
      hm_ls = [\<lparr>d_name = ''alice.key'', d_type = File\<rparr>, \<lparr>d_name = ''bob.key'', d_type = File\<rparr>],
      hm_cat = (\<lambda>p. []),
      hm_mtime = (\<lambda>p. 0)\<rparr>"

text \<open>A transformer that accepts every text, and one that rejects the text \<open>P\<close>.\<close>

definition accept_all :: transformer where
  "accept_all code = Resolved (''f () '' @ code)"

definition reject_P :: transformer where
  "reject_P code = (if code = ''P'' then Rejected (Reason ''SyntaxError'') else accept_all code)"

text \<open>
  A hackmud directory with one macro file, modified at time \<open>t\<close>, and the key file of
  one user.
\<close>

definition fs_macro_file :: "string \<Rightarrow> int \<Rightarrow> filesystem" where
  "fs_macro_file content t =
     \<lparr>src_ls = (\<lambda>p. []), src_cat = (\<lambda>p. []),
      hm_ls = [\<lparr>d_name = ''a.macros'', d_type = File\<rparr>, \<lparr>d_name = ''a.key'', d_type = File\<rparr>],
      hm_cat = (\<lambda>p. content),
      hm_mtime = (\<lambda>p. t)\<rparr>"

text \<open>
  Two macro files that both define \<open>alpha\<close>, modified at \<open>t1\<close> and \<open>t2\<close>, listed in
  this order.
\<close>

definition fs_two_macro_files :: "int \<Rightarrow> int \<Rightarrow> filesystem" where
  "fs_two_macro_files t1 t2 =
     \<lparr>src_ls = (\<lambda>p. []), src_cat = (\<lambda>p. []),
      hm_ls = [\<lparr>d_name = ''a.macros'', d_type = File\<rparr>, \<lparr>d_name = ''b.macros'', d_type = File\<rparr>,
               \<lparr>d_name = ''a.key'', d_type = File\<rparr>],
      hm_cat = (\<lambda>p. if p = ''a.macros'' then ''alpha\<newline>x\<newline>'' else ''alpha\<newline>y\<newline>''),
      hm_mtime = (\<lambda>p. if p = ''a.macros'' then t1 else t2)\<rparr>"

text \<open>Latencies under which every write takes a thousand steps and all else one.\<close>

definition slow_writes :: latency where
  "slow_writes operation = (case operation of WriteFile p \<Rightarrow> 1000 | _ \<Rightarrow> 1)"

section \<open>Properties\<close>

lemma loop_guard_nat [code]: "loop_guard i n = (2 * i + 2 < n)"
  unfolding loop_guard_def by (auto simp: field_simps)

lemmas path_defs = extname_def basename_def last_segment_def logical_name_def
  supportedExtensions_def isFile_def isDirectory_def passes_def

subsection \<open>The structure of push\<close>

text \<open>
  The loops of \<open>push\<close> as maps over the entries they select, and the users that
  \<open>skips\<close> holds for a name once the folders have been read. The proofs about
  \<open>push\<close> and \<open>watch\<close> use no property of \<open>extname\<close> and \<open>basename\<close>: only the
  examples evaluate them.
\<close>

lemma skips_get_add:
  "skips_get (skips_add skips name user) n
   = (if n = name then skips_get skips n @ [user] else skips_get skips n)"
  by (simp add: skips_get_def skips_add_def split: option.splits)

lemma push_user_files_snd:
  "snd (push_user_files P H fs scripts user files (skips, outcomes))
   = outcomes @ map (\<lambda>file. push_private_file P H fs user (d_name file))
              (filter (is_script scripts) files)"
  by (induction files arbitrary: skips outcomes)
     (auto simp: is_script_def logical_name_def Let_def)

lemma push_user_files_fst:
  "set (skips_get (fst (push_user_files P H fs scripts user files (skips, outcomes))) n)
   = set (skips_get skips n)
     \<union> {u. u = user \<and> (\<exists>file \<in> set files. is_script scripts file \<and> logical_name (d_name file) = n)}"
  by (induction files arbitrary: skips outcomes)
     (auto simp: is_script_def logical_name_def Let_def skips_get_add)

lemma push_user_dirs_snd:
  "snd (push_user_dirs P H fs users scripts files st)
   = snd st @ concat (map (\<lambda>dir. map (\<lambda>file. push_private_file P H fs (d_name dir) (d_name file))
                                    (filter (is_script scripts) (src_ls fs (d_name dir))))
                         (filter (\<lambda>dir. isDirectory dir \<and> passes users (d_name dir)) files))"
proof (induction files arbitrary: st)
  case Nil
  show ?case by simp
next
  case (Cons dir files)
  obtain skips outcomes where st: "st = (skips, outcomes)" by (cases st)
  show ?case
    by (simp add: Cons.IH st Let_def push_user_files_snd)
qed

lemma push_user_dirs_fst:
  "set (skips_get (fst (push_user_dirs P H fs users scripts files st)) n)
   = set (skips_get (fst st) n)
     \<union> {d_name dir | dir. dir \<in> set files \<and> isDirectory dir \<and> passes users (d_name dir)
          \<and> (\<exists>file \<in> set (src_ls fs (d_name dir)). is_script scripts file \<and> logical_name (d_name file) = n)}"
proof (induction files arbitrary: st)
  case Nil
  show ?case by simp
next
  case (Cons dir files)
  obtain skips outcomes where st: "st = (skips, outcomes)" by (cases st)
  show ?case
    by (auto simp add: Cons.IH st Let_def push_user_files_fst)
qed

lemma push_global_files_map:
  "push_global_files P H fs users scripts skips files
   = map (\<lambda>file. push_global_file P H fs users skips (d_name file)) (filter (is_script scripts) files)"
  by (induction files) (auto simp: is_script_def logical_name_def)

lemma push_unfold:
  "push P H fs users scripts
   = concat (map (\<lambda>dir. map (\<lambda>file. push_private_file P H fs (d_name dir) (d_name file))
                               (filter (is_script scripts) (src_ls fs (d_name dir))))
                 (filter (\<lambda>dir. isDirectory dir \<and> passes users (d_name dir)) (src_ls fs [])))
     @ map (\<lambda>file. push_global_file P H fs (effective_users fs users)
                       (fst (push_user_dirs P H fs users scripts (src_ls fs []) (Map.empty, [])))
                       (d_name file))
           (filter (is_script scripts) (src_ls fs []))"
  by (simp add: push_def Let_def split_beta push_user_dirs_snd push_global_files_map)

lemma skips_get_empty: "skips_get Map.empty n = []"
  by (simp add: skips_get_def)

lemma push_skips_set:
  "set (skips_get (fst (push_user_dirs P H fs users scripts (src_ls fs []) (Map.empty, []))) n)
   = {d_name dir | dir. dir \<in> set (src_ls fs []) \<and> isDirectory dir \<and> passes users (d_name dir)
          \<and> (\<exists>file \<in> set (src_ls fs (d_name dir)). is_script scripts file \<and> logical_name (d_name file) = n)}"
  by (simp add: push_user_dirs_fst skips_get_empty)

lemma effective_users_pass: "user \<in> set (effective_users fs users) \<Longrightarrow> passes users user"
  by (auto simp: effective_users_def passes_def split: if_splits)

lemma skip_iff_override:
  assumes "passes scripts n" "passes users user"
  shows "user \<in> set (skips_get (fst (push_user_dirs P H fs users scripts (src_ls fs []) (Map.empty, []))) n)
         \<longleftrightarrow> holds_override fs n user"
  unfolding push_skips_set holds_override_def is_script_def using assms by auto

lemma push_global_file_success:
  assumes "P (src_cat fs fname) = Resolved minCode" "minCode \<noteq> []"
  shows "push_global_file P H fs users skips fname
         = (\<lparr>info_file = fname,
              info_users = filter (\<lambda>user. user \<notin> set (skips_get skips (logical_name fname))) users,
              info_minLength = hackmudLength minCode, info_error = Null\<rparr>,
            map (\<lambda>user. (deploy_path H user (logical_name fname), minCode))
              (filter (\<lambda>user. user \<notin> set (skips_get skips (logical_name fname))) users))"
  using assms by (simp add: push_global_file_def catch_processScript_def logical_name_def Let_def)

lemma push_private_file_success:
  assumes "P (src_cat fs (user @ ''/'' @ fname)) = Resolved minCode" "minCode \<noteq> []"
  shows "push_private_file P H fs user fname
         = (\<lparr>info_file = user @ ''/'' @ fname, info_users = [user],
              info_minLength = hackmudLength minCode, info_error = Null\<rparr>,
            [(deploy_path H user (logical_name fname), minCode)])"
  using assms by (simp add: push_private_file_def catch_processScript_def logical_name_def Let_def)

lemma hackmudLength_filter:
  "hackmudLength s = length (filter (\<lambda>c. c \<noteq> CHR '' '' \<and> c \<noteq> CHR 0x0A \<and> c \<noteq> CHR 0x0D) s)"
  by (simp add: hackmudLength_def)

lemma push_private_file_info_file:
  "info_file (fst (push_private_file P H fs user fname)) = user @ ''/'' @ fname"
  by (simp add: push_private_file_def Let_def split_beta)

lemma push_global_file_info_file:
  "info_file (fst (push_global_file P H fs users skips fname)) = fname"
  by (simp add: push_global_file_def Let_def split_beta)

lemma push_cases:
  assumes "out \<in> set (push P H fs users scripts)"
  obtains (user_script) dir script where "dir \<in> set (src_ls fs [])" "isDirectory dir" "passes users (d_name dir)"
      "script \<in> set (src_ls fs (d_name dir))" "is_script scripts script"
      "out = push_private_file P H fs (d_name dir) (d_name script)"
  | (root_script) script where "script \<in> set (src_ls fs [])" "is_script scripts script"
      "out = push_global_file P H fs (effective_users fs users)
               (fst (push_user_dirs P H fs users scripts (src_ls fs []) (Map.empty, []))) (d_name script)"
  using assms unfolding push_unfold by auto

lemma push_private_file_failure:
  assumes "transform_fails P (src_cat fs (user @ ''/'' @ fname))"
  shows "snd (push_private_file P H fs user fname) = []"
    and "info_minLength (fst (push_private_file P H fs user fname)) = 0"
    and "truthy (info_error (fst (push_private_file P H fs user fname)))"
    and "info_users (fst (push_private_file P H fs user fname)) = [user]"
  using assms
  by (auto simp: transform_fails_def push_private_file_def catch_processScript_def Let_def
           split: transform_result.splits)

lemma push_global_file_failure:
  assumes "transform_fails P (src_cat fs fname)"
  shows "snd (push_global_file P H fs users skips fname) = []"
    and "info_minLength (fst (push_global_file P H fs users skips fname)) = 0"
    and "truthy (info_error (fst (push_global_file P H fs users skips fname)))"
    and "info_users (fst (push_global_file P H fs users skips fname)) = []"
  using assms
  by (auto simp: transform_fails_def push_global_file_def catch_processScript_def Let_def
           split: transform_result.splits)

lemma push_user_files_skips_indep:
  "fst (push_user_files P H fs scripts user files (skips, outcomes))
   = fst (push_user_files P' H' fs scripts user files (skips, outcomes'))"
  by (induction files arbitrary: skips outcomes outcomes') (auto simp: Let_def)

lemma push_user_dirs_skips_indep:
  "fst st = fst st' \<Longrightarrow>
   fst (push_user_dirs P H fs users scripts files st)
   = fst (push_user_dirs P' H' fs users scripts files st')"
proof (induction files arbitrary: st st')
  case Nil
  then show ?case by simp
next
  case (Cons dir files)
  obtain skips outcomes outcomes' where st: "st = (skips, outcomes)" "st' = (skips, outcomes')"
    using Cons.prems by (cases st, cases st') auto
  show ?case
    using Cons.prems
    by (auto simp: Let_def st intro!: Cons.IH push_user_files_skips_indep)
qed

lemma push_private_file_cong:
  "P' (src_cat fs (user @ ''/'' @ fname)) = P (src_cat fs (user @ ''/'' @ fname)) \<Longrightarrow>
   push_private_file P' H fs user fname = push_private_file P H fs user fname"
  by (simp add: push_private_file_def catch_processScript_def)

lemma push_global_file_cong:
  "P' (src_cat fs fname) = P (src_cat fs fname) \<Longrightarrow>
   push_global_file P' H fs users skips fname = push_global_file P H fs users skips fname"
  by (simp add: push_global_file_def catch_processScript_def)

lemma list_all2_map_same:
  "(\<And>x. x \<in> set xs \<Longrightarrow> R (f x) (g x)) \<Longrightarrow> list_all2 R (map f xs) (map g xs)"
  by (simp add: list_all2_map1 list_all2_map2 list_all2_same)

lemma list_all2_concat_map:
  "(\<And>x. x \<in> set xs \<Longrightarrow> list_all2 R (f x) (g x)) \<Longrightarrow>
   list_all2 R (concat (map f xs)) (concat (map g xs))"
  by (induction xs) (auto intro: list_all2_appendI)

lemma deploy_path_inject:
  "deploy_path H user n = deploy_path H' user' n' \<longleftrightarrow> H = H' \<and> user = user' \<and> n = n'"
  by (auto simp: deploy_path_def)

lemma push_private_file_write:
  assumes "w \<in> set (snd (push_private_file P H fs user fname))"
  shows "fst w = deploy_path H user (logical_name fname)"
    and "P (src_cat fs (user @ ''/'' @ fname)) = Resolved (snd w)"
    and "snd w \<noteq> []"
    and "info_minLength (fst (push_private_file P H fs user fname)) = hackmudLength (snd w)"
  using assms
  by (auto simp: push_private_file_def catch_processScript_def logical_name_def Let_def
           split: transform_result.splits if_splits)

lemma push_global_file_write:
  assumes "w \<in> set (snd (push_global_file P H fs users skips fname))"
  shows "\<exists>user \<in> set users. user \<notin> set (skips_get skips (logical_name fname))
           \<and> fst w = deploy_path H user (logical_name fname)"
    and "P (src_cat fs fname) = Resolved (snd w)"
    and "snd w \<noteq> []"
  using assms
  by (auto simp: push_global_file_def catch_processScript_def logical_name_def Let_def
           split: transform_result.splits if_splits)

lemma transform_fails_Resolved:
  "P code = Resolved minCode \<Longrightarrow> minCode \<noteq> [] \<Longrightarrow> \<not> transform_fails P code"
  by (simp add: transform_fails_def)

lemma watch_change_cases:
  assumes "watch_change P H fs users scripts path = (users', Some out)"
  shows "(\<exists>name. watch_root_change P H fs users scripts name path = (users', Some out))
       \<or> (\<exists>name user. watch_user_change P H fs users scripts name path user = (users', Some out))"
  using assms
  by (fastforce simp: watch_change_def Let_def split: if_splits list.splits)

lemma watch_root_change_minLength:
  assumes "watch_root_change P H fs users scripts name path = (users', Some (info, writes))"
    and "P (src_cat fs (info_file info)) = Resolved minCode" and "minCode \<noteq> []"
  shows "info_minLength info = hackmudLength minCode \<and> (\<forall>w \<in> set writes. snd w = minCode)"
  using assms
  by (auto simp: watch_root_change_def catch_processScript_def Let_def
           split: transform_result.splits if_splits)

lemma watch_user_change_minLength:
  assumes "watch_user_change P H fs users scripts name path user = (users', Some (info, writes))"
    and "P (src_cat fs (info_file info)) = Resolved minCode" and "minCode \<noteq> []"
  shows "info_minLength info = hackmudLength minCode \<and> (\<forall>w \<in> set writes. snd w = minCode)"
  using assms
  by (auto simp: watch_user_change_def catch_processScript_def Let_def
           split: transform_result.splits if_splits)

lemma push_minLength:
  assumes "(info, writes) \<in> set (push P H fs users scripts)"
    and "P (src_cat fs (info_file info)) = Resolved minCode" and "minCode \<noteq> []"
  shows "info_minLength info = hackmudLength minCode \<and> (\<forall>w \<in> set writes. snd w = minCode)"
  using assms(1)
proof (cases rule: push_cases)
  case (user_script dir script)
  from user_script(6) [symmetric] assms(2,3) show ?thesis
    by (auto simp: push_private_file_def catch_processScript_def Let_def
           split: transform_result.splits if_splits)
next
  case (root_script script)
  from root_script(3) [symmetric] assms(2,3) show ?thesis
    by (auto simp: push_global_file_def catch_processScript_def Let_def
           split: transform_result.splits if_splits)
qed

subsection \<open>Scripts of the source directory\<close>

text \<open>
  C1. A script of the source directory that passes the script filter and transforms to a
  non-empty text is written to the users of the effective user set (the users given, or
  the users with a key file when none is given) who hold no private override for its
  logical name, in the order of that set, and its \<open>Info\<close> lists the same users. So the
  set of users written to is the effective user set minus the holders of an override.
\<close>

theorem push_global_targets:
  assumes "file \<in> set (src_ls fs [])" and "is_script scripts file"
    and "processScript (src_cat fs (d_name file)) = Resolved minCode" and "minCode \<noteq> []"
    and "targets = filter (\<lambda>user. \<not> holds_override fs (logical_name (d_name file)) user)
                     (effective_users fs users)"
  shows "(\<lparr>info_file = d_name file, info_users = targets,
           info_minLength = hackmudLength minCode, info_error = Null\<rparr>,
          map (\<lambda>user. (deploy_path hackmudDir user (logical_name (d_name file)), minCode)) targets)
         \<in> set (push processScript hackmudDir fs users scripts)
         \<and> set targets = set (effective_users fs users)
                          - {user. holds_override fs (logical_name (d_name file)) user}"
proof -
  let ?n = "logical_name (d_name file)"
  let ?skips = "fst (push_user_dirs processScript hackmudDir fs users scripts (src_ls fs []) (Map.empty, []))"
  have n: "passes scripts ?n" using assms(2) by (simp add: is_script_def)
  have "filter (\<lambda>user. user \<notin> set (skips_get ?skips ?n)) (effective_users fs users) = targets"
    unfolding assms(5)
    by (rule filter_cong) (auto simp: skip_iff_override [OF n effective_users_pass])
  then have "push_global_file processScript hackmudDir fs (effective_users fs users) ?skips (d_name file)
        = (\<lparr>info_file = d_name file, info_users = targets,
             info_minLength = hackmudLength minCode, info_error = Null\<rparr>,
           map (\<lambda>user. (deploy_path hackmudDir user ?n, minCode)) targets)"
    using assms(3,4) by (simp add: push_global_file_success)
  moreover have "push_global_file processScript hackmudDir fs (effective_users fs users) ?skips (d_name file)
        \<in> set (push processScript hackmudDir fs users scripts)"
    unfolding push_unfold using assms(1,2) by auto
  ultimately show ?thesis unfolding assms(5) by auto
qed

theorem push_global_targets_witness:
  "(\<lparr>info_file = ''foo.ts'', info_users = [''bob''], info_minLength = 4, info_error = Null\<rparr>,
    [([''hm'', ''bob'', ''scripts'', ''foo.js''], ''f () G'')])
   \<in> set (push accept_all ''hm'' fs_alice_bob [] [])
   \<and> set [''bob''] = set (effective_users fs_alice_bob [])
                       - {user. holds_override fs_alice_bob ''foo'' user}"
proof -
  let ?file = "\<lparr>d_name = ''foo.ts'', d_type = File\<rparr>"
  have p1: "?file \<in> set (src_ls fs_alice_bob [])"
    by (simp add: fs_alice_bob_def)
  have p2: "is_script [] ?file"
    by (simp add: is_script_def path_defs)
  have p3: "accept_all (src_cat fs_alice_bob (d_name ?file)) = Resolved ''f () G''"
    by (simp add: accept_all_def fs_alice_bob_def)
  have p4: "''f () G'' \<noteq> []"
    by simp
  have n: "logical_name ''foo.ts'' = ''foo''"
    by (simp add: path_defs)
  have len: "hackmudLength ''f () G'' = 4"
    by (simp add: hackmudLength_def)
  have p5: "[''bob''] = filter (\<lambda>user. \<not> holds_override fs_alice_bob (logical_name (d_name ?file)) user)
                         (effective_users fs_alice_bob [])"
    by code_simp
  from push_global_targets [where processScript = accept_all and hackmudDir = "''hm''"
      and scripts = "[]" and users = "[]", OF p1 p2 p3 p4 p5]
  show ?thesis
    by (simp add: n len deploy_path_def)
qed

subsection \<open>Scripts of a user's folder\<close>

text \<open>
  C6. A script in the folder of a user who passes the user filter, whose logical name
  passes the script filter and which transforms to a non-empty text, is written to one
  path, that of the owning user, whatever other users the filter names, and its \<open>Info\<close>
  lists the owning user alone.
\<close>

theorem push_private_single_target:
  assumes "dir \<in> set (src_ls fs [])" and "isDirectory dir" and "passes users (d_name dir)"
    and "file \<in> set (src_ls fs (d_name dir))" and "is_script scripts file"
    and "processScript (src_cat fs (d_name dir @ ''/'' @ d_name file)) = Resolved minCode"
    and "minCode \<noteq> []"
  shows "(\<lparr>info_file = d_name dir @ ''/'' @ d_name file, info_users = [d_name dir],
           info_minLength = hackmudLength minCode, info_error = Null\<rparr>,
          [(deploy_path hackmudDir (d_name dir) (logical_name (d_name file)), minCode)])
         \<in> set (push processScript hackmudDir fs users scripts)"
proof -
  have "push_private_file processScript hackmudDir fs (d_name dir) (d_name file)
        \<in> set (push processScript hackmudDir fs users scripts)"
    unfolding push_unfold using assms(1-5) by auto
  then show ?thesis using assms(6,7) by (simp add: push_private_file_success)
qed
theorem push_private_single_target_witness:
  "(\<lparr>info_file = ''alice/foo.ts'', info_users = [''alice''], info_minLength = 4, info_error = Null\<rparr>,
    [([''hm'', ''alice'', ''scripts'', ''foo.js''], ''f () P'')])
   \<in> set (push accept_all ''hm'' fs_alice_bob [''bob'', ''alice''] [''foo''])"
proof -
  let ?dir = "\<lparr>d_name = ''alice'', d_type = Directory\<rparr>"
  let ?file = "\<lparr>d_name = ''foo.ts'', d_type = File\<rparr>"
  have p1: "?dir \<in> set (src_ls fs_alice_bob [])"
    by (simp add: fs_alice_bob_def)
  have p2: "isDirectory ?dir"
    by (simp add: isDirectory_def)
  have p3: "passes [''bob'', ''alice''] (d_name ?dir)"
    by (simp add: passes_def)
  have p4: "?file \<in> set (src_ls fs_alice_bob (d_name ?dir))"
    by (simp add: fs_alice_bob_def)
  have p5: "is_script [''foo''] ?file"
    by (simp add: is_script_def path_defs)
  have p6: "accept_all (src_cat fs_alice_bob (d_name ?dir @ ''/'' @ d_name ?file)) = Resolved ''f () P''"
    by (simp add: accept_all_def fs_alice_bob_def)
  have p7: "''f () P'' \<noteq> []"
    by simp
  have n: "logical_name ''foo.ts'' = ''foo''"
    by (simp add: path_defs)
  have len: "hackmudLength ''f () P'' = 4"
    by (simp add: hackmudLength_def)
  from push_private_single_target [where processScript = accept_all and hackmudDir = "''hm''",
      OF p1 p2 p3 p4 p5 p6 p7]
  show ?thesis
    by (simp add: n len deploy_path_def)
qed

subsection \<open>Failing transformations\<close>

text \<open>
  C8. A file whose transformation is rejected and a file whose transformation resolves
  to the empty text are treated alike: the \<open>Info\<close> carries an error that is not \<open>null\<close>,
  nothing is written for the file and its length stays 0. The other files are not
  affected: a transformer that differs on the text of that file only gives the same
  list of files, with the same outcome for every file with another text.
\<close>

theorem push_failure_is_local:
  assumes "\<forall>code'. code' \<noteq> code \<longrightarrow> processScript' code' = processScript code'"
  shows "(\<forall>out \<in> set (push processScript hackmudDir fs users scripts).
            transform_fails processScript (src_cat fs (info_file (fst out))) \<longrightarrow>
              info_error (fst out) \<noteq> Null \<and> truthy (info_error (fst out))
              \<and> snd out = [] \<and> info_minLength (fst out) = 0)
       \<and> list_all2 (\<lambda>out out'. info_file (fst out') = info_file (fst out)
                       \<and> (src_cat fs (info_file (fst out)) \<noteq> code \<longrightarrow> out' = out))
           (push processScript hackmudDir fs users scripts)
           (push processScript' hackmudDir fs users scripts)"
proof (intro conjI ballI impI)
  fix out
  assume out: "out \<in> set (push processScript hackmudDir fs users scripts)"
    and fails: "transform_fails processScript (src_cat fs (info_file (fst out)))"
  from out have "truthy (info_error (fst out)) \<and> snd out = [] \<and> info_minLength (fst out) = 0"
  proof (cases rule: push_cases)
    case (user_script dir script)
    with fails show ?thesis
      by (simp add: push_private_file_info_file push_private_file_failure)
  next
    case (root_script script)
    with fails show ?thesis
      by (simp add: push_global_file_info_file push_global_file_failure)
  qed
  then show "info_error (fst out) \<noteq> Null" "truthy (info_error (fst out))"
    "snd out = []" "info_minLength (fst out) = 0"
    by auto
next
  let ?R = "\<lambda>out out'. info_file (fst out') = info_file (fst out)
                       \<and> (src_cat fs (info_file (fst out)) \<noteq> code \<longrightarrow> out' = out)"
  have skips: "fst (push_user_dirs processScript' hackmudDir fs users scripts (src_ls fs []) (Map.empty, []))
             = fst (push_user_dirs processScript hackmudDir fs users scripts (src_ls fs []) (Map.empty, []))"
    by (rule push_user_dirs_skips_indep) simp
  have priv: "?R (push_private_file processScript hackmudDir fs user fname)
                 (push_private_file processScript' hackmudDir fs user fname)" for user fname
    using assms by (auto simp: push_private_file_info_file intro!: push_private_file_cong)
  have glob: "?R (push_global_file processScript hackmudDir fs us sk fname)
                 (push_global_file processScript' hackmudDir fs us sk fname)" for us sk fname
    using assms by (auto simp: push_global_file_info_file intro!: push_global_file_cong)
  show "list_all2 ?R (push processScript hackmudDir fs users scripts)
           (push processScript' hackmudDir fs users scripts)"
    unfolding push_unfold skips
    by (intro list_all2_appendI list_all2_concat_map list_all2_map_same priv glob)
qed
theorem push_failure_is_local_witness:
  "transform_fails reject_P (src_cat fs_alice_bob ''alice/foo.ts'')
   \<and> push reject_P ''hm'' fs_alice_bob [] []
     = [(\<lparr>info_file = ''alice/foo.ts'', info_users = [''alice''], info_minLength = 0,
          info_error = Reason ''SyntaxError''\<rparr>, []),
        (\<lparr>info_file = ''foo.ts'', info_users = [''bob''], info_minLength = 4, info_error = Null\<rparr>,
         [([''hm'', ''bob'', ''scripts'', ''foo.js''], ''f () G'')])]
   \<and> list_all2 (\<lambda>out out'. info_file (fst out') = info_file (fst out)
                   \<and> (src_cat fs_alice_bob (info_file (fst out)) \<noteq> ''P'' \<longrightarrow> out' = out))
        (push reject_P ''hm'' fs_alice_bob [] []) (push accept_all ''hm'' fs_alice_bob [] [])"
proof -
  have p: "\<forall>code'. code' \<noteq> ''P'' \<longrightarrow> accept_all code' = reject_P code'"
    by (simp add: reject_P_def)
  have f: "transform_fails reject_P (src_cat fs_alice_bob ''alice/foo.ts'')"
    by (simp add: transform_fails_def reject_P_def fs_alice_bob_def)
  have e: "push reject_P ''hm'' fs_alice_bob [] []
     = [(\<lparr>info_file = ''alice/foo.ts'', info_users = [''alice''], info_minLength = 0,
          info_error = Reason ''SyntaxError''\<rparr>, []),
        (\<lparr>info_file = ''foo.ts'', info_users = [''bob''], info_minLength = 4, info_error = Null\<rparr>,
         [([''hm'', ''bob'', ''scripts'', ''foo.js''], ''f () G'')])]"
    by code_simp
  from push_failure_is_local [where processScript = reject_P and processScript' = accept_all
      and hackmudDir = "''hm''" and fs = fs_alice_bob and users = "[]" and scripts = "[]", OF p]
  have "list_all2 (\<lambda>out out'. info_file (fst out') = info_file (fst out)
                   \<and> (src_cat fs_alice_bob (info_file (fst out)) \<noteq> ''P'' \<longrightarrow> out' = out))
        (push reject_P ''hm'' fs_alice_bob [] []) (push accept_all ''hm'' fs_alice_bob [] [])"
    by (rule conjunct2)
  with f e show ?thesis by simp
qed

text \<open>
  C9. A user who passes the user filter and has a script of logical name \<open>n\<close> (passing
  the script filter) in their folder is entered in \<open>skips\<close> for \<open>n\<close> whatever the
  transformer does with the script. Every write to the user's path for \<open>n\<close> comes from
  a script of the user's own folder that transformed to a non-empty text, never from a
  script of the source directory; so when the user's scripts of that name all fail, the
  user's path for \<open>n\<close> is not written at all.
\<close>

theorem push_failed_override_still_skips:
  assumes "dir \<in> set (src_ls fs [])" and "isDirectory dir" and "passes users (d_name dir)"
    and "file \<in> set (src_ls fs (d_name dir))" and "is_script scripts file"
    and "user = d_name dir" and "n = logical_name (d_name file)"
  shows "user \<in> set (skips_get (fst (push_user_dirs processScript hackmudDir fs users scripts
                                        (src_ls fs []) (Map.empty, []))) n)
       \<and> (\<forall>out \<in> set (push processScript hackmudDir fs users scripts).
            \<forall>w \<in> set (snd out). fst w = deploy_path hackmudDir user n \<longrightarrow>
              (\<exists>script \<in> set (src_ls fs user).
                  is_script scripts script \<and> logical_name (d_name script) = n
                  \<and> \<not> transform_fails processScript (src_cat fs (user @ ''/'' @ d_name script))
                  \<and> out = push_private_file processScript hackmudDir fs user (d_name script)))
       \<and> ((\<forall>script \<in> set (src_ls fs user).
              is_script scripts script \<and> logical_name (d_name script) = n \<longrightarrow>
                transform_fails processScript (src_cat fs (user @ ''/'' @ d_name script))) \<longrightarrow>
           (\<forall>out \<in> set (push processScript hackmudDir fs users scripts).
              \<forall>w \<in> set (snd out). fst w \<noteq> deploy_path hackmudDir user n))"
proof -
  let ?skips = "fst (push_user_dirs processScript hackmudDir fs users scripts (src_ls fs []) (Map.empty, []))"
  have skip: "user \<in> set (skips_get ?skips n)"
    unfolding push_skips_set using assms by auto
  have origin: "\<exists>script \<in> set (src_ls fs user).
                  is_script scripts script \<and> logical_name (d_name script) = n
                  \<and> \<not> transform_fails processScript (src_cat fs (user @ ''/'' @ d_name script))
                  \<and> out = push_private_file processScript hackmudDir fs user (d_name script)"
    if out: "out \<in> set (push processScript hackmudDir fs users scripts)"
      and w: "w \<in> set (snd out)" "fst w = deploy_path hackmudDir user n" for out w
    using out
  proof (cases rule: push_cases)
    case (user_script dir' script)
    from w(1) have *: "fst w = deploy_path hackmudDir (d_name dir') (logical_name (d_name script))"
      "processScript (src_cat fs (d_name dir' @ ''/'' @ d_name script)) = Resolved (snd w)"
      "snd w \<noteq> []"
      unfolding user_script(6) by (rule push_private_file_write)+
    from *(1) w(2) have eq: "d_name dir' = user" "logical_name (d_name script) = n"
      by (simp_all add: deploy_path_inject)
    show ?thesis
      using user_script(4,5,6) * eq transform_fails_Resolved [where P = processScript, OF *(2,3)] by auto
  next
    case (root_script script)
    from w(1) obtain user' where "user' \<notin> set (skips_get ?skips (logical_name (d_name script)))"
      "fst w = deploy_path hackmudDir user' (logical_name (d_name script))"
      unfolding root_script(3) using push_global_file_write(1) by blast
    with w(2) skip show ?thesis by (simp add: deploy_path_inject)
  qed
  from skip origin show ?thesis by blast
qed

theorem push_failed_override_still_skips_witness:
  "''alice'' \<in> set (skips_get (fst (push_user_dirs reject_P ''hm'' fs_alice_bob [] []
                                      (src_ls fs_alice_bob []) (Map.empty, []))) ''foo'')
   \<and> \<not> (\<exists>out \<in> set (push reject_P ''hm'' fs_alice_bob [] []).
          \<exists>w \<in> set (snd out). fst w = deploy_path ''hm'' ''alice'' ''foo'')"
proof -
  let ?dir = "\<lparr>d_name = ''alice'', d_type = Directory\<rparr>"
  let ?file = "\<lparr>d_name = ''foo.ts'', d_type = File\<rparr>"
  have p1: "?dir \<in> set (src_ls fs_alice_bob [])"
    by (simp add: fs_alice_bob_def)
  have p2: "isDirectory ?dir"
    by (simp add: isDirectory_def)
  have p3: "passes [] (d_name ?dir)"
    by (simp add: passes_def)
  have p4: "?file \<in> set (src_ls fs_alice_bob (d_name ?dir))"
    by (simp add: fs_alice_bob_def)
  have p5: "is_script [] ?file"
    by (simp add: is_script_def path_defs)
  have p6: "''alice'' = d_name ?dir"
    by simp
  have p7: "''foo'' = logical_name (d_name ?file)"
    by (simp add: path_defs)
  have fails: "\<forall>script \<in> set (src_ls fs_alice_bob ''alice'').
      is_script [] script \<and> logical_name (d_name script) = ''foo'' \<longrightarrow>
        transform_fails reject_P (src_cat fs_alice_bob (''alice'' @ ''/'' @ d_name script))"
    by (simp add: fs_alice_bob_def transform_fails_def reject_P_def)
  from push_failed_override_still_skips [where processScript = reject_P and hackmudDir = "''hm''",
      OF p1 p2 p3 p4 p5 p6 p7] fails
  show ?thesis by blast
qed

subsection \<open>The reported length\<close>

text \<open>
  C10. For a script that transforms to a non-empty text, in \<open>push\<close> and in the handler of
  \<open>watch\<close>, the \<open>minLength\<close> of its \<open>Info\<close> is the number of characters of the
  transformed text that are not a space, a line feed or a carriage return: the length
  of the text less the number of these characters. The text written is the transformed
  text itself.
\<close>

theorem minLength_counts_without_whitespace:
  assumes "(info, writes) \<in> set (push processScript hackmudDir fs users scripts)
           \<or> watch_change processScript hackmudDir fs users scripts path = (users', Some (info, writes))"
    and "processScript (src_cat fs (info_file info)) = Resolved minCode" and "minCode \<noteq> []"
  shows "info_minLength info
           = length (filter (\<lambda>c. c \<noteq> CHR '' '' \<and> c \<noteq> CHR 0x0A \<and> c \<noteq> CHR 0x0D) minCode)
       \<and> info_minLength info
           + length (filter (\<lambda>c. c = CHR '' '' \<or> c = CHR 0x0A \<or> c = CHR 0x0D) minCode)
           = length minCode
       \<and> info_minLength info = hackmudLength minCode
       \<and> (\<forall>w \<in> set writes. snd w = minCode)"
proof -
  have "info_minLength info = hackmudLength minCode \<and> (\<forall>w \<in> set writes. snd w = minCode)"
    using assms(1)
  proof
    assume "(info, writes) \<in> set (push processScript hackmudDir fs users scripts)"
    then show ?thesis using assms(2,3) by (rule push_minLength)
  next
    assume "watch_change processScript hackmudDir fs users scripts path = (users', Some (info, writes))"
    from watch_change_cases [OF this] show ?thesis
    proof (elim disjE exE)
      fix name
      assume "watch_root_change processScript hackmudDir fs users scripts name path
              = (users', Some (info, writes))"
      then show ?thesis using assms(2,3) by (rule watch_root_change_minLength)
    next
      fix name user
      assume "watch_user_change processScript hackmudDir fs users scripts name path user
              = (users', Some (info, writes))"
      then show ?thesis using assms(2,3) by (rule watch_user_change_minLength)
    qed
  qed
  moreover have "length (filter (\<lambda>c. c \<noteq> CHR '' '' \<and> c \<noteq> CHR 0x0A \<and> c \<noteq> CHR 0x0D) minCode)
           + length (filter (\<lambda>c. c = CHR '' '' \<or> c = CHR 0x0A \<or> c = CHR 0x0D) minCode)
           = length minCode"
    using sum_length_filter_compl [of "\<lambda>c. c \<noteq> CHR '' '' \<and> c \<noteq> CHR 0x0A \<and> c \<noteq> CHR 0x0D" minCode]
    by (simp add: de_Morgan_conj)
  ultimately show ?thesis by (simp add: hackmudLength_filter)
qed
theorem minLength_counts_without_whitespace_witness:
  "(\<lparr>info_file = ''foo.ts'', info_users = [''bob''], info_minLength = 4, info_error = Null\<rparr>,
    [([''hm'', ''bob'', ''scripts'', ''foo.js''], ''f () G'')])
   \<in> set (push accept_all ''hm'' fs_alice_bob [] [])
   \<and> length (filter (\<lambda>c. c \<noteq> CHR '' '' \<and> c \<noteq> CHR 0x0A \<and> c \<noteq> CHR 0x0D) ''f () G'') = 4
   \<and> length ''f () G'' = 6"
proof -
  let ?info = "\<lparr>info_file = ''foo.ts'', info_users = [''bob''], info_minLength = 4, info_error = Null\<rparr>"
  let ?writes = "[([''hm'', ''bob'', ''scripts'', ''foo.js''], ''f () G'')]"
  have p0: "(?info, ?writes) \<in> set (push accept_all ''hm'' fs_alice_bob [] [])"
    by code_simp
  then have p1: "(?info, ?writes) \<in> set (push accept_all ''hm'' fs_alice_bob [] [])
            \<or> watch_change accept_all ''hm'' fs_alice_bob [] [] [] = ([], Some (?info, ?writes))"
    by (rule disjI1)
  have p2: "accept_all (src_cat fs_alice_bob (info_file ?info)) = Resolved ''f () G''"
    by (simp add: accept_all_def fs_alice_bob_def)
  have p3: "''f () G'' \<noteq> []"
    by simp
  from minLength_counts_without_whitespace [where processScript = accept_all, OF p1 p2 p3] p0
  show ?thesis by simp
qed

subsection \<open>The handler of watch\<close>

text \<open>
  The \<open>skips\<close> that the handler builds for a change of a script of the source directory
  hold, for a name, the users with a private override of that name.
\<close>

lemma watch_skip_files_set:
  "set (skips_get (watch_skip_files dir_name files skips) n)
   = set (skips_get skips n)
     \<union> {u. u = dir_name \<and> (\<exists>file \<in> set files. isFile file
                \<and> extname (d_name file) \<in> set supportedExtensions
                \<and> logical_name (d_name file) = n)}"
  by (induction files arbitrary: skips)
     (auto simp: logical_name_def Let_def skips_get_add)

lemma watch_skip_dirs_set:
  "set (skips_get (watch_skip_dirs fs dirs skips) n)
   = set (skips_get skips n)
     \<union> {d_name dir | dir. dir \<in> set dirs \<and> isDirectory dir
          \<and> (\<exists>file \<in> set (src_ls fs (d_name dir)). isFile file
                \<and> extname (d_name file) \<in> set supportedExtensions
                \<and> logical_name (d_name file) = n)}"
  by (induction dirs arbitrary: skips) (auto simp: watch_skip_files_set)

lemma watch_skips_iff_override:
  "user \<in> set (skips_get (watch_skip_dirs fs (src_ls fs []) Map.empty) n)
   \<longleftrightarrow> holds_override fs n user"
  unfolding watch_skip_dirs_set holds_override_def by (auto simp: skips_get_empty)

text \<open>
  A change of a script of the source directory that passes the script filter and
  transforms to a non-empty text is written to the users of the effective user set who
  hold no private override of its name, and \<open>users\<close> becomes the effective user set.
\<close>

theorem watch_root_change_targets:
  assumes "extname path \<in> set supportedExtensions"
    and "js_split path (CHR ''/'') = [file]"
    and "passes scripts (logical_name path)"
    and "processScript (src_cat fs path) = Resolved minCode" and "minCode \<noteq> []"
    and "targets = filter (\<lambda>user. \<not> holds_override fs (logical_name path) user)
                     (effective_users fs users)"
  shows "watch_change processScript hackmudDir fs users scripts path
         = (effective_users fs users,
            Some (\<lparr>info_file = path, info_users = targets,
                   info_minLength = hackmudLength minCode, info_error = Null\<rparr>,
                  map (\<lambda>user. (deploy_path hackmudDir user (logical_name path), minCode)) targets))"
proof -
  have "filter (\<lambda>user. user \<notin> set (skips_get (watch_skip_dirs fs (src_ls fs []) Map.empty)
                                       (logical_name path)))
          (effective_users fs users) = targets"
    unfolding assms(6) by (simp add: watch_skips_iff_override)
  then show ?thesis
    using assms(1-5)
    by (simp add: watch_change_def watch_root_change_def catch_processScript_def
          effective_users_def logical_name_def Let_def)
qed

theorem watch_root_change_targets_witness:
  "watch_change accept_all ''hm'' fs_alice_bob [] [] ''foo.ts''
   = ([''alice'', ''bob''],
      Some (\<lparr>info_file = ''foo.ts'', info_users = [''bob''], info_minLength = 4, info_error = Null\<rparr>,
            [([''hm'', ''bob'', ''scripts'', ''foo.js''], ''f () G'')]))"
proof -
  have p1: "extname ''foo.ts'' \<in> set supportedExtensions"
    by (simp add: path_defs)
  have p2: "js_split ''foo.ts'' (CHR ''/'') = [''foo.ts'']"
    by simp
  have n: "logical_name ''foo.ts'' = ''foo''"
    by (simp add: path_defs)
  have p3: "passes [] (logical_name ''foo.ts'')"
    by (simp add: passes_def)
  have p4: "accept_all (src_cat fs_alice_bob ''foo.ts'') = Resolved ''f () G''"
    by (simp add: accept_all_def fs_alice_bob_def)
  have p5: "''f () G'' \<noteq> []"
    by simp
  have p6: "[''bob''] = filter (\<lambda>user. \<not> holds_override fs_alice_bob (logical_name ''foo.ts'') user)
                         (effective_users fs_alice_bob [])"
    by code_simp
  have len: "hackmudLength ''f () G'' = 4"
    by (simp add: hackmudLength_def)
  have eff: "effective_users fs_alice_bob [] = [''alice'', ''bob'']"
    by code_simp
  from watch_root_change_targets [where processScript = accept_all and hackmudDir = "''hm''",
      OF p1 p2 p3 p4 p5 p6]
  show ?thesis
    by (simp add: n len eff deploy_path_def)
qed

text \<open>
  A change of a script in a user's folder that passes the filters and transforms to a
  non-empty text issues one write, to the path of the user named by the folder, and
  reports as users that user followed by every user of \<open>users\<close>.
\<close>

theorem watch_user_change_outcome:
  assumes "extname path \<in> set supportedExtensions"
    and "js_split path (CHR ''/'') = [user, rest]"
    and "passes users user" and "passes scripts (logical_name path)"
    and "processScript (src_cat fs path) = Resolved minCode" and "minCode \<noteq> []"
  shows "watch_change processScript hackmudDir fs users scripts path
         = (users,
            Some (\<lparr>info_file = path, info_users = user # users,
                   info_minLength = hackmudLength minCode, info_error = Null\<rparr>,
                  [(deploy_path hackmudDir user (logical_name path), minCode)]))"
  using assms
  by (simp add: watch_change_def watch_user_change_def catch_processScript_def
        logical_name_def Let_def)

theorem watch_user_change_outcome_witness:
  "watch_change accept_all ''hm'' fs_alice_bob [''alice''] [] ''alice/foo.ts''
   = ([''alice''],
      Some (\<lparr>info_file = ''alice/foo.ts'', info_users = [''alice'', ''alice''],
             info_minLength = 4, info_error = Null\<rparr>,
            [([''hm'', ''alice'', ''scripts'', ''foo.js''], ''f () P'')]))"
proof -
  have p1: "extname ''alice/foo.ts'' \<in> set supportedExtensions"
    by (simp add: path_defs)
  have p2: "js_split ''alice/foo.ts'' (CHR ''/'') = [''alice'', ''foo.ts'']"
    by simp
  have n: "logical_name ''alice/foo.ts'' = ''foo''"
    by (simp add: path_defs)
  have p3: "passes [''alice''] ''alice''"
    by (simp add: passes_def)
  have p4: "passes [] (logical_name ''alice/foo.ts'')"
    by (simp add: passes_def)
  have p5: "accept_all (src_cat fs_alice_bob ''alice/foo.ts'') = Resolved ''f () P''"
    by (simp add: accept_all_def fs_alice_bob_def)
  have p6: "''f () P'' \<noteq> []"
    by simp
  have len: "hackmudLength ''f () P'' = 4"
    by (simp add: hackmudLength_def)
  from watch_user_change_outcome [where processScript = accept_all and hackmudDir = "''hm''",
      OF p1 p2 p3 p4 p5 p6]
  show ?thesis
    by (simp add: n len deploy_path_def)
qed

text \<open>
  C2. A change of a user's script is written once, to the folder of the user who owns
  it, but the \<open>Info\<close> handed to \<open>onPush\<close> does not list that user alone: line 247
  appends every user of the filter to the list that already holds the owner. With
  the users \<open>alice\<close> and \<open>bob\<close> given and \<open>alice/foo.ts\<close> changed, the one write
  goes to \<open>alice\<close> and the list is \<open>alice, alice, bob\<close>.
\<close>

theorem watch_user_change_lists_filter_users:
  "watch_change accept_all ''hm'' fs_alice_bob [''alice'', ''bob''] [] ''alice/foo.ts''
   = ([''alice'', ''bob''],
      Some (\<lparr>info_file = ''alice/foo.ts'', info_users = [''alice'', ''alice'', ''bob''],
             info_minLength = 4, info_error = Null\<rparr>,
            [([''hm'', ''alice'', ''scripts'', ''foo.js''], ''f () P'')]))"
  by code_simp

subsection \<open>syncMacros\<close>

text \<open>
  The scan of the macro files is a fold of \<open>merge_record\<close> over the candidate records,
  and the loop of lines 311 to 315 appends the blocks of the records it keeps.
\<close>

lemma loop_guard_div: "loop_guard i n \<longleftrightarrow> i < (n - 1) div 2"
  unfolding loop_guard_nat by arith

lemma merge_record_step:
  "merge_record (k, e) macros
   = (if (case map_of macros k of None \<Rightarrow> True | Some cur \<Rightarrow> entry_date e > entry_date cur)
      then AList.update k e macros else macros)"
  by (simp add: merge_record_def split: option.split)

lemma scan_lines_fold:
  "scan_lines date lines i macros = fold merge_record (drop i (file_candidates date lines)) macros"
proof (induction date lines i macros rule: scan_lines.induct)
  case (1 date lines i macros)
  show ?case
  proof (cases "loop_guard i (length lines)")
    case True
    then have lt: "i < (length lines - 1) div 2" by (simp add: loop_guard_div)
    have "drop i [0..<(length lines - 1) div 2] = i # drop (Suc i) [0..<(length lines - 1) div 2]"
      by (simp only: drop_upt add_0 upt_conv_Cons [OF lt] plus_nat.add_0 add_0_right)
    then have "drop i (file_candidates date lines)
        = (lines ! (i * 2), \<lparr>entry_macro = lines ! (i * 2 + 1), entry_date = date\<rparr>)
          # drop (Suc i) (file_candidates date lines)"
      by (simp only: file_candidates_def drop_map list.map)
    moreover have "scan_lines date lines i macros
        = scan_lines date lines (i + 1)
            (merge_record (lines ! (i * 2), \<lparr>entry_macro = lines ! (i * 2 + 1), entry_date = date\<rparr>) macros)"
      by (subst scan_lines.simps) (simp add: True merge_record_step Let_def del: scan_lines.simps split: option.split)
    moreover from 1 [OF True refl refl]
    have "scan_lines date lines (i + 1)
            (merge_record (lines ! (i * 2), \<lparr>entry_macro = lines ! (i * 2 + 1), entry_date = date\<rparr>) macros)
        = fold merge_record (drop (i + 1) (file_candidates date lines))
            (merge_record (lines ! (i * 2), \<lparr>entry_macro = lines ! (i * 2 + 1), entry_date = date\<rparr>) macros)"
      by (auto simp add: merge_record_step simp del: scan_lines.simps split: option.splits)
    ultimately show ?thesis
      by (simp del: scan_lines.simps)
  next
    case False
    then have "drop i (file_candidates date lines) = []"
      by (simp add: file_candidates_def loop_guard_div)
    with False show ?thesis
      by (subst scan_lines.simps) (simp del: scan_lines.simps)
  qed
qed

lemma scan_files_fold:
  "fst (scan_files fs files (macros, users)) = fold merge_record (all_candidates fs files) macros"
  by (induction files arbitrary: macros users)
     (auto simp: all_candidates_def scan_lines_fold simp del: scan_lines.simps)

lemma map_of_merge_record:
  "map_of (merge_record c macros) k
   = (if k = fst c then
        (case map_of macros k of None \<Rightarrow> Some (snd c)
         | Some cur \<Rightarrow> if entry_date (snd c) > entry_date cur then Some (snd c) else Some cur)
      else map_of macros k)"
  by (auto simp: merge_record_def update_conv' split: option.splits)

lemma fold_merge_None:
  "map_of (fold merge_record cs []) k = None \<longleftrightarrow> k \<notin> fst ` set cs"
proof (induction cs rule: rev_induct)
  case Nil
  show ?case by simp
next
  case (snoc c cs)
  then show ?case
    by (auto simp: map_of_merge_record split: option.splits)
qed

lemma fold_merge_best:
  "map_of (fold merge_record cs []) k = Some e \<Longrightarrow> \<exists>j. best_at cs k e j"
proof (induction cs arbitrary: e rule: rev_induct)
  case Nil
  then show ?case by simp
next
  case (snoc c cs)
  let ?m = "fold merge_record cs []"
  show ?case
  proof (cases "k = fst c")
    case False
    with snoc.prems have "map_of ?m k = Some e" by (simp add: map_of_merge_record)
    then obtain j where j: "best_at cs k e j" using snoc.IH by blast
    have "best_at (cs @ [c]) k e j"
      using j False unfolding best_at_def
      by (auto simp: nth_append less_Suc_eq)
    then show ?thesis ..
  next
    case True
    show ?thesis
    proof (cases "map_of ?m k")
      case None
      then have "k \<notin> fst ` set cs" by (simp add: fold_merge_None)
      then have none: "\<forall>j' < length cs. fst (cs ! j') \<noteq> k"
        by (metis nth_mem image_eqI)
      from snoc.prems None True have e: "e = snd c" by (simp add: map_of_merge_record)
      have "best_at (cs @ [c]) k e (length cs)"
        unfolding best_at_def using none True e
        by (auto simp: nth_append less_Suc_eq)
      then show ?thesis ..
    next
      case (Some cur)
      then obtain j where j: "best_at cs k cur j" using snoc.IH by blast
      show ?thesis
      proof (cases "entry_date (snd c) > entry_date cur")
        case gt: True
        with snoc.prems Some True have e: "e = snd c" by (simp add: map_of_merge_record)
        have "best_at (cs @ [c]) k e (length cs)"
          unfolding best_at_def using j gt True e unfolding best_at_def
          by (auto simp: nth_append less_Suc_eq)
        then show ?thesis ..
      next
        case le: False
        with snoc.prems Some True have e: "e = cur" by (simp add: map_of_merge_record)
        have "best_at (cs @ [c]) k e j"
          using j le True e unfolding best_at_def
          by (auto simp: nth_append less_Suc_eq)
        then show ?thesis ..
      qed
    qed
  qed
qed

lemma merge_macros_Inr:
  "merge_macros xs (macroFile, n) = Inr (macroFile', n') \<Longrightarrow>
   macroFile' = macroFile @ concat (map render_macro (filter (\<lambda>(name, e). starts_lower (entry_macro e)) xs))
   \<and> n' = n + length (filter (\<lambda>(name, e). starts_lower (entry_macro e)) xs)
   \<and> (\<forall>(name, e) \<in> set xs. entry_macro e \<noteq> [])"
proof (induction xs arbitrary: macroFile n)
  case Nil
  then show ?case by simp
next
  case (Cons x xs)
  obtain name e where x: "x = (name, e)" by (cases x)
  from Cons.prems obtain c cs where body: "entry_macro e = c # cs"
    unfolding x by (cases "entry_macro e") auto
  show ?case
  proof (cases "c = toLowerCase c")
    case True
    with Cons.prems body
    have "merge_macros xs (macroFile @ name @ [CHR 0x0A] @ entry_macro e @ [CHR 0x0A], Suc n)
          = Inr (macroFile', n')"
      unfolding x by simp
    from Cons.IH [OF this] True body show ?thesis
      unfolding x by (simp add: starts_lower_def render_macro_def)
  next
    case False
    with Cons.prems body have "merge_macros xs (macroFile, n) = Inr (macroFile', n')"
      unfolding x by simp
    from Cons.IH [OF this] False body show ?thesis
      unfolding x by (simp add: starts_lower_def)
  qed
qed

lemma js_split_line:
  "c \<notin> set l \<Longrightarrow> js_split (l @ c # rest) c = l # js_split rest c"
  by (induction l) (auto split: list.splits)

lemma js_split_terminated_lines:
  "\<forall>l \<in> set ls. CHR 0x0A \<notin> set l \<Longrightarrow>
   js_split (terminated_lines ls) (CHR 0x0A) = ls @ [[]]"
  by (induction ls) (simp_all add: terminated_lines_def js_split_line)

lemma line_pairs_nth:
  "line_pairs ls = map (\<lambda>i. (ls ! (i * 2), ls ! (i * 2 + 1))) [0..<length ls div 2]"
proof (induction ls rule: line_pairs.induct)
  case (1 name body rest)
  have "[0..<length (name # body # rest) div 2] = 0 # map Suc [0..<length rest div 2]"
    by (simp add: upt_conv_Cons map_Suc_upt del: upt_Suc)
  with 1 show ?case by (simp add: comp_def del: upt_Suc)
qed simp_all

lemma file_candidates_terminated:
  "file_candidates date (ls @ [[]])
   = map (\<lambda>(name, body). (name, \<lparr>entry_macro = body, entry_date = date\<rparr>)) (line_pairs ls)"
  unfolding file_candidates_def line_pairs_nth
  by (auto simp: nth_append comp_def)

text \<open>
  C7. After the scan a name has a record exactly when some candidate bears it, and the
  record kept is a candidate for the name that none exceeds in time and that comes
  first among those of the same time: a candidate replaces the record only when its
  timestamp is strictly greater, and of two candidates with equal timestamps the one
  scanned earlier stays. With \<open>alpha\<close> defined as \<open>x\<close> at time 1 and then as \<open>y\<close> at
  time 2 the result is \<open>y\<close>; at equal times it is \<open>x\<close>.
\<close>

theorem syncMacros_keeps_latest_first:
  assumes "cs = all_candidates fs (hm_ls fs)"
    and "macros = fst (scan_files fs (hm_ls fs) ([], []))"
  shows "(map_of macros name = None \<longleftrightarrow> name \<notin> fst ` set cs)
       \<and> (\<forall>e. map_of macros name = Some e \<longrightarrow>
             (\<exists>j < length cs. cs ! j = (name, e)
                \<and> (\<forall>j' < length cs. fst (cs ! j') = name \<longrightarrow>
                      entry_date (snd (cs ! j')) \<le> entry_date e
                      \<and> (entry_date (snd (cs ! j')) = entry_date e \<longrightarrow> j \<le> j'))))"
proof -
  have m: "macros = fold merge_record cs []"
    unfolding assms by (rule scan_files_fold)
  show ?thesis
    unfolding m using fold_merge_best [of cs name]
    by (auto simp: fold_merge_None best_at_def)
qed

theorem syncMacros_keeps_latest_first_witness:
  "syncMacros (fs_two_macro_files 1 2)
     = Inr \<lparr>macrosSynced = 1, usersSynced = 1,
            macro_writes = [(''a.macros'', ''alpha\<newline>y\<newline>'')]\<rparr>
   \<and> syncMacros (fs_two_macro_files 1 1)
     = Inr \<lparr>macrosSynced = 1, usersSynced = 1,
            macro_writes = [(''a.macros'', ''alpha\<newline>x\<newline>'')]\<rparr>
   \<and> (\<exists>j < 2. [(''alpha'', \<lparr>entry_macro = ''x'', entry_date = 1\<rparr>),
                 (''alpha'', \<lparr>entry_macro = ''y'', entry_date = 2\<rparr>)] ! j
                = (''alpha'', \<lparr>entry_macro = ''y'', entry_date = 2\<rparr>))"
proof -
  let ?fs = "fs_two_macro_files 1 2"
  let ?cs = "[(''alpha'', \<lparr>entry_macro = ''x'', entry_date = 1\<rparr>),
              (''alpha'', \<lparr>entry_macro = ''y'', entry_date = 2\<rparr>)]"
  have p1: "?cs = all_candidates ?fs (hm_ls ?fs)"
    by code_simp
  have p2: "[(''alpha'', \<lparr>entry_macro = ''y'', entry_date = 2\<rparr>)] = fst (scan_files ?fs (hm_ls ?fs) ([], []))"
    by code_simp
  have e1: "syncMacros (fs_two_macro_files 1 2)
     = Inr \<lparr>macrosSynced = 1, usersSynced = 1,
            macro_writes = [(''a.macros'', ''alpha\<newline>y\<newline>'')]\<rparr>"
    by code_simp
  have e2: "syncMacros (fs_two_macro_files 1 1)
     = Inr \<lparr>macrosSynced = 1, usersSynced = 1,
            macro_writes = [(''a.macros'', ''alpha\<newline>x\<newline>'')]\<rparr>"
    by code_simp
  from syncMacros_keeps_latest_first [OF p1 p2, of "''alpha''"]
  have "\<exists>j < length ?cs. ?cs ! j = (''alpha'', \<lparr>entry_macro = ''y'', entry_date = 2\<rparr>)"
    by auto
  with e1 e2 show ?thesis by (simp add: numeral_2_eq_2)
qed

text \<open>
  C3, as the claim states it, fails: line 312 tests \<open>macro[0]\<close>, the first character of
  the body, not of the name. The record \<open>Beta\<close> with the body \<open>z\<close> is kept although
  its name starts with a capital, and \<open>delta\<close> with the body \<open>Zed\<close> is left out
  although its name does not.
\<close>

theorem syncMacros_body_filter_counterexample:
  "syncMacros (fs_macro_file ''Beta\<newline>z\<newline>gamma\<newline>w\<newline>delta\<newline>Zed\<newline>'' 1)
     = Inr \<lparr>macrosSynced = 2, usersSynced = 1,
            macro_writes = [(''a.macros'', ''Beta\<newline>z\<newline>gamma\<newline>w\<newline>'')]\<rparr>"
  by code_simp

text \<open>
  C3, amended. When \<open>syncMacros\<close> returns, the records it appends to the merged text, in
  the order of their names, are those whose body starts with a character that is its
  own lower case; their number is \<open>macrosSynced\<close>, every user's macro file is written
  with the blocks of exactly these records, and no record has an empty body.
\<close>

theorem syncMacros_filters_on_body:
  assumes "syncMacros fs = Inr r"
    and "best = sort_key fst (fst (scan_files fs (hm_ls fs) ([], [])))"
    and "kept = filter (\<lambda>(name, e). starts_lower (entry_macro e)) best"
  shows "macrosSynced r = length kept
       \<and> macro_writes r
           = map (\<lambda>user. (user @ ''.macros'', concat (map render_macro kept)))
               (snd (scan_files fs (hm_ls fs) ([], [])))
       \<and> usersSynced r = length (macro_writes r)
       \<and> (\<forall>(name, e) \<in> set best. entry_macro e \<noteq> [])"
proof -
  obtain macros users where sf: "scan_files fs (hm_ls fs) ([], []) = (macros, users)"
    by (cases "scan_files fs (hm_ls fs) ([], [])")
  from assms(1) obtain macroFile n where
    mm: "merge_macros (sort_key fst macros) ([], 0) = Inr (macroFile, n)"
    and r: "r = \<lparr>macrosSynced = n, usersSynced = length users,
                 macro_writes = map (\<lambda>user. (user @ ''.macros'', macroFile)) users\<rparr>"
    unfolding syncMacros_def sf by (auto split: sum.splits)
  from merge_macros_Inr [OF mm] show ?thesis
    unfolding assms(2,3) sf r by simp
qed

theorem syncMacros_filters_on_body_witness:
  "syncMacros (fs_macro_file ''Beta\<newline>z\<newline>gamma\<newline>w\<newline>'' 1)
     = Inr \<lparr>macrosSynced = 2, usersSynced = 1,
            macro_writes = [(''a.macros'', ''Beta\<newline>z\<newline>gamma\<newline>w\<newline>'')]\<rparr>
   \<and> length [(''Beta'', \<lparr>entry_macro = ''z'', entry_date = 1\<rparr>),
              (''gamma'', \<lparr>entry_macro = ''w'', entry_date = 1\<rparr>)] = 2"
proof -
  let ?fs = "fs_macro_file ''Beta\<newline>z\<newline>gamma\<newline>w\<newline>'' 1"
  let ?r = "\<lparr>macrosSynced = 2, usersSynced = 1,
            macro_writes = [(''a.macros'', ''Beta\<newline>z\<newline>gamma\<newline>w\<newline>'')]\<rparr>"
  let ?best = "[(''Beta'', \<lparr>entry_macro = ''z'', entry_date = 1\<rparr>),
                (''gamma'', \<lparr>entry_macro = ''w'', entry_date = 1\<rparr>)]"
  have p1: "syncMacros ?fs = Inr ?r"
    by code_simp
  have p2: "?best = sort_key fst (fst (scan_files ?fs (hm_ls ?fs) ([], [])))"
    by code_simp
  have p3: "?best = filter (\<lambda>(name, e). starts_lower (entry_macro e)) ?best"
    by code_simp
  from syncMacros_filters_on_body [OF p1 p2 p3] p1
  show ?thesis by simp
qed

text \<open>
  The scan of one macro file reads \<open>(length lines - 1) div 2\<close> pairs of lines: every
  pair when the number of lines is odd, as for a text that ends with a line feed after
  its last body, and one pair less when it is even.
\<close>

theorem scan_lines_reads_pairs:
  "scan_lines date lines 0 macros = fold merge_record (file_candidates date lines) macros
   \<and> length (file_candidates date lines) = (length lines - 1) div 2
   \<and> (odd (length lines) \<longrightarrow> length (file_candidates date lines) = length lines div 2)
   \<and> (even (length lines) \<and> lines \<noteq> [] \<longrightarrow>
        Suc (length (file_candidates date lines)) = length lines div 2)"
proof -
  have "scan_lines date lines 0 macros = fold merge_record (file_candidates date lines) macros"
    by (simp add: scan_lines_fold del: scan_lines.simps)
  moreover have "length (file_candidates date lines) = (length lines - 1) div 2"
    by (simp add: file_candidates_def)
  moreover have "odd (length lines) \<longrightarrow> (length lines - 1) div 2 = length lines div 2"
    by (auto elim: oddE)
  moreover have "even (length lines) \<and> lines \<noteq> [] \<longrightarrow>
                 Suc ((length lines - 1) div 2) = length lines div 2"
    by (cases lines) (auto elim!: evenE)
  ultimately show ?thesis by simp
qed

theorem scan_lines_reads_pairs_witness:
  "odd (length (js_split ''alpha\<newline>x\<newline>beta\<newline>y\<newline>'' (CHR 0x0A)))
   \<and> length (file_candidates 1 (js_split ''alpha\<newline>x\<newline>beta\<newline>y\<newline>'' (CHR 0x0A))) = 2
   \<and> even (length (js_split ''alpha\<newline>x\<newline>beta\<newline>y'' (CHR 0x0A)))
   \<and> length (file_candidates 1 (js_split ''alpha\<newline>x\<newline>beta\<newline>y'' (CHR 0x0A))) = 1"
proof -
  let ?a = "js_split ''alpha\<newline>x\<newline>beta\<newline>y\<newline>'' (CHR 0x0A)"
  let ?b = "js_split ''alpha\<newline>x\<newline>beta\<newline>y'' (CHR 0x0A)"
  have a: "odd (length ?a)" "length ?a div 2 = 2" by simp_all
  have b: "even (length ?b) \<and> ?b \<noteq> []" "length ?b div 2 = 2" by simp_all
  from scan_lines_reads_pairs [of 1 ?a "[]"] a
  have "length (file_candidates 1 ?a) = 2" by simp
  moreover from scan_lines_reads_pairs [of 1 ?b "[]"] b
  have "length (file_candidates 1 ?b) = 1" by simp
  ultimately show ?thesis using a b by simp
qed

text \<open>
  C4, as the claim states it, fails on a file whose last line does not end with a line
  feed: the guard \<open>i < lines.length / 2 - 1\<close> stops before the final pair. Of the four
  lines \<open>alpha\<close>, \<open>x\<close>, \<open>beta\<close>, \<open>y\<close> with no line feed at the end only the first pair
  becomes a record.
\<close>

theorem syncMacros_unterminated_pair_counterexample:
  "syncMacros (fs_macro_file ''alpha\<newline>x\<newline>beta\<newline>y'' 1)
     = Inr \<lparr>macrosSynced = 1, usersSynced = 1,
            macro_writes = [(''a.macros'', ''alpha\<newline>x\<newline>'')]\<rparr>"
  by code_simp

text \<open>
  C4, amended. For a macro file whose lines each end with a line feed, which is how
  \<open>syncMacros\<close> writes macro files, the scan takes the lines in (name, body) pairs and
  merges one candidate record for every pair, the final pair included, each with the
  modification time of the file.
\<close>

theorem syncMacros_reads_terminated_pairs:
  assumes "isFile file" and "extname (d_name file) = ''.macros''"
    and "hm_cat fs (d_name file) = terminated_lines ls"
    and "\<forall>l \<in> set ls. CHR 0x0A \<notin> set l"
  shows "scan_files fs (file # files) (macros, users)
         = scan_files fs files
             (fold merge_record
                (map (\<lambda>(name, body).
                        (name, \<lparr>entry_macro = body, entry_date = hm_mtime fs (d_name file)\<rparr>))
                   (line_pairs ls))
                macros, users)
       \<and> length (line_pairs ls) = length ls div 2
       \<and> (\<forall>i. i * 2 + 1 < length ls \<longrightarrow> (ls ! (i * 2), ls ! (i * 2 + 1)) \<in> set (line_pairs ls))"
proof -
  have "scan_lines (hm_mtime fs (d_name file)) (js_split (hm_cat fs (d_name file)) (CHR 0x0A)) 0 macros
        = fold merge_record
            (map (\<lambda>(name, body).
                    (name, \<lparr>entry_macro = body, entry_date = hm_mtime fs (d_name file)\<rparr>))
               (line_pairs ls))
            macros"
    using assms(4)
    by (simp add: assms(3) js_split_terminated_lines scan_lines_fold file_candidates_terminated
          del: scan_lines.simps)
  moreover have "(ls ! (i * 2), ls ! (i * 2 + 1)) \<in> set (line_pairs ls)"
    if "i * 2 + 1 < length ls" for i
  proof -
    from that have "i < length ls div 2" by arith
    then show ?thesis unfolding line_pairs_nth by (auto simp: image_iff)
  qed
  ultimately show ?thesis
    using assms(1,2) by (simp add: line_pairs_nth del: scan_lines.simps)
qed

theorem syncMacros_reads_terminated_pairs_witness:
  "hm_cat (fs_macro_file ''alpha\<newline>x\<newline>beta\<newline>y\<newline>'' 1) ''a.macros''
     = terminated_lines [''alpha'', ''x'', ''beta'', ''y'']
   \<and> line_pairs [''alpha'', ''x'', ''beta'', ''y''] = [(''alpha'', ''x''), (''beta'', ''y'')]
   \<and> scan_files (fs_macro_file ''alpha\<newline>x\<newline>beta\<newline>y\<newline>'' 1)
        [\<lparr>d_name = ''a.macros'', d_type = File\<rparr>] ([], [])
     = ([(''alpha'', \<lparr>entry_macro = ''x'', entry_date = 1\<rparr>),
         (''beta'', \<lparr>entry_macro = ''y'', entry_date = 1\<rparr>)], [])"
proof -
  let ?fs = "fs_macro_file ''alpha\<newline>x\<newline>beta\<newline>y\<newline>'' 1"
  let ?file = "\<lparr>d_name = ''a.macros'', d_type = File\<rparr>"
  let ?ls = "[''alpha'', ''x'', ''beta'', ''y'']"
  have p1: "isFile ?file"
    by (simp add: isFile_def)
  have p2: "extname (d_name ?file) = ''.macros''"
    by (simp add: path_defs)
  have p3: "hm_cat ?fs (d_name ?file) = terminated_lines ?ls"
    by (simp add: fs_macro_file_def terminated_lines_def)
  have p4: "\<forall>l \<in> set ?ls. CHR 0x0A \<notin> set l"
    by simp
  have m: "hm_mtime ?fs ''a.macros'' = 1"
    by (simp add: fs_macro_file_def)
  let ?cands = "map (\<lambda>(name, body).
                       (name, \<lparr>entry_macro = body, entry_date = hm_mtime ?fs (d_name ?file)\<rparr>))
                  (line_pairs ?ls)"
  from syncMacros_reads_terminated_pairs [OF p1 p2 p3 p4, of "[]" "[]" "[]"]
  have A: "scan_files ?fs [?file] ([], []) = scan_files ?fs [] (fold merge_record ?cands [], [])"
    by (rule conjunct1)
  have B: "fold merge_record ?cands []
           = [(''alpha'', \<lparr>entry_macro = ''x'', entry_date = 1\<rparr>),
              (''beta'', \<lparr>entry_macro = ''y'', entry_date = 1\<rparr>)]"
    by (simp add: m merge_record_def)
  have C: "scan_files ?fs [?file] ([], [])
           = ([(''alpha'', \<lparr>entry_macro = ''x'', entry_date = 1\<rparr>),
               (''beta'', \<lparr>entry_macro = ''y'', entry_date = 1\<rparr>)], [])"
    by (subst A, subst B) simp
  have D: "line_pairs ?ls = [(''alpha'', ''x''), (''beta'', ''y'')]"
    by simp
  have E: "hm_cat ?fs ''a.macros'' = terminated_lines ?ls"
    using p3 by simp
  from E D C show ?thesis
    by (intro conjI)
qed

subsection \<open>Settling\<close>

text \<open>
  C5. \<open>push\<close> resolves before the writes it has started settle. In the scenario of the
  example inputs, with every operation taking one step, \<open>resolve\<close> is called at step
  4, when the transformation of the script of the source directory has settled, while
  the write of the script of the folder \<open>alice\<close> to \<open>alice\<close> and the write of the
  script of the source directory to \<open>bob\<close> both settle at step 5.
\<close>

theorem push_resolves_before_writes_settle:
  "push_resolve_time (\<lambda>operation. 1) accept_all ''hm'' fs_alice_bob [] [] = 4
   \<and> push_write_times (\<lambda>operation. 1) accept_all ''hm'' fs_alice_bob [] [] = [5, 5]"
  by code_simp

text \<open>
  The time at which \<open>push\<close> resolves depends on the latencies of the listings, the
  reads and the transformations only: however long the writes take, it is the same.
\<close>

theorem push_resolve_ignores_writes:
  assumes "\<forall>p. lat' (ReadDir_src p) = lat (ReadDir_src p)"
    and "lat' ReadDir_hackmud = lat ReadDir_hackmud"
    and "\<forall>p. lat' (ReadFile_src p) = lat (ReadFile_src p)"
    and "\<forall>code. lat' (ProcessScript code) = lat (ProcessScript code)"
  shows "push_resolve_time lat' processScript hackmudDir fs users scripts
         = push_resolve_time lat processScript hackmudDir fs users scripts"
proof -
  have dirs: "push_dir_times lat' fs users = push_dir_times lat fs users"
    using assms(1) by (simp add: push_dir_times_def)
  have join: "push_join_time lat' fs users = push_join_time lat fs users"
    using assms(1,2) by (simp add: push_join_time_def dirs)
  have "map fst (push_global_times lat' processScript hackmudDir fs users scripts)
        = map fst (push_global_times lat processScript hackmudDir fs users scripts)"
    using assms(3,4) by (simp add: push_global_times_def Let_def join comp_def)
  then show ?thesis
    by (simp add: push_resolve_time_def join)
qed

theorem push_resolve_ignores_writes_witness:
  "push_resolve_time slow_writes accept_all ''hm'' fs_alice_bob [] [] = 4
   \<and> push_write_times slow_writes accept_all ''hm'' fs_alice_bob [] [] = [1004, 1004]"
proof -
  have p1: "\<forall>p. slow_writes (ReadDir_src p) = (\<lambda>operation. 1) (ReadDir_src p)"
    and p2: "slow_writes ReadDir_hackmud = (\<lambda>operation. 1) ReadDir_hackmud"
    and p3: "\<forall>p. slow_writes (ReadFile_src p) = (\<lambda>operation. 1) (ReadFile_src p)"
    and p4: "\<forall>code. slow_writes (ProcessScript code) = (\<lambda>operation. 1) (ProcessScript code)"
    by (simp_all add: slow_writes_def)
  have e: "push_resolve_time (\<lambda>operation. 1) accept_all ''hm'' fs_alice_bob [] [] = 4"
    by code_simp
  have w: "push_write_times slow_writes accept_all ''hm'' fs_alice_bob [] [] = [1004, 1004]"
    by code_simp
  from push_resolve_ignores_writes [where lat' = slow_writes and lat = "\<lambda>operation. 1"
      and processScript = accept_all and hackmudDir = "''hm''" and fs = fs_alice_bob
      and users = "[]" and scripts = "[]", OF p1 p2 p3 p4] e w
  show ?thesis by simp
qed

end
